theory Spec2Isabelle
  imports Main "HOL-Library.Dlist" "HOL-Library.Sublist" "HOL-Library.Word"
begin

section \<open>Python values used by the application\<close>

text \<open>
  A Python \<open>str\<close> is held as its UTF-8 encoding, a \<^typ>\<open>string\<close> with one \<^typ>\<open>char\<close> per
  byte. Concatenation, comparison and \<open>join\<close> are the same on both. Only the JSON encoder
  and decoder work on code points, and read them from the bytes. The labels of the user
  interface that hold characters beyond ASCII are the bytes of the source file. A \<open>str\<close>
  with a lone surrogate has no UTF-8 encoding: \<open>model_dump_json\<close>, which writes UTF-8,
  raises on it, so no entry of the wardrobe holds one.
\<close>

definition digit_char :: "nat \<Rightarrow> char" where
  "digit_char d = ''0123456789'' ! d"

text \<open>The decimal digits of a natural number, most significant first.\<close>

fun digits :: "nat \<Rightarrow> string" where
  "digits n = (if n < 10 then [digit_char n] else digits (n div 10) @ [digit_char (n mod 10)])"

declare digits.simps [simp del]

text \<open>\<open>str(i)\<close> for a Python \<open>int\<close>; an f-string and \<open>json.dumps\<close> print an int the same way.\<close>

definition str_int :: "int \<Rightarrow> string" where
  "str_int i = (if i < 0 then CHR ''-'' # digits (nat (- i)) else digits (nat i))"

text \<open>\<open>sep.join(xs)\<close>.\<close>

fun join :: "string \<Rightarrow> string list \<Rightarrow> string" where
  "join sep [] = []"
| "join sep [x] = x"
| "join sep (x # y # ys) = x @ sep @ join sep (y # ys)"

text \<open>
  \<open>base64.b64encode(image_bytes).decode("utf-8")\<close>: three bytes become four characters
  of the standard alphabet, a last group of one or two bytes is padded with \<open>=\<close>.
\<close>

definition b64_char :: "nat \<Rightarrow> char" where
  "b64_char i = ''ABCDEFGHIJKLMNOPQRSTUVWXYZabcdefghijklmnopqrstuvwxyz0123456789+/'' ! i"

fun b64encode :: "8 word list \<Rightarrow> string" where
  "b64encode (a # b # c # rest) =
     (let n = unat a * 65536 + unat b * 256 + unat c
      in [b64_char (n div 262144), b64_char (n div 4096 mod 64),
          b64_char (n div 64 mod 64), b64_char (n mod 64)] @ b64encode rest)"
| "b64encode [a, b] =
     (let n = unat a * 65536 + unat b * 256
      in [b64_char (n div 262144), b64_char (n div 4096 mod 64),
          b64_char (n div 64 mod 64), CHR ''=''])"
| "b64encode [a] =
     (let n = unat a * 65536
      in [b64_char (n div 262144), b64_char (n div 4096 mod 64), CHR ''='', CHR ''=''])"
| "b64encode [] = []"

section \<open>JSON values and \<open>json.dumps(obj, indent=2)\<close>\<close>

text \<open>
  The values \<open>json.dumps\<close> is applied to: \<open>None\<close>, \<open>bool\<close>, \<open>int\<close>, \<open>str\<close>, \<open>list\<close> and
  \<open>dict\<close> with string keys (a dict keeps its insertion order). The program holds no float.
\<close>

datatype json =
    JNull
  | JBool bool
  | JInt int
  | JStr string
  | JArr "json list"
  | JObj "(string \<times> json) list"

definition hex_char :: "nat \<Rightarrow> char" where
  "hex_char d = ''0123456789abcdef'' ! d"

text \<open>
  The code points of a string. A byte below 128 is its own code point; a lead byte with
  the continuation bytes it asks for is the code point of two, three or four bytes, when
  that is the shortest form of the code point, not a surrogate and at most U+10FFFF. A
  byte that starts no such sequence is not part of the encoding of any \<open>str\<close>; it is read
  as the error handler \<open>surrogateescape\<close> reads it, as U+DC00 plus the byte.
\<close>

definition byte :: "string \<Rightarrow> nat \<Rightarrow> nat" where
  "byte s i = (if i < length s then of_char (s ! i) else 0)"

definition cont :: "nat \<Rightarrow> bool" where
  "cont b = (128 \<le> b \<and> b < 192)"

text \<open>The code point at the head of a string and the number of bytes it takes.\<close>

definition utf8_head :: "string \<Rightarrow> nat \<times> nat" where
  "utf8_head s =
     (let a = byte s 0; b = byte s 1; c = byte s 2; d = byte s 3;
          n2 = (a - 192) * 64 + (b - 128);
          n3 = ((a - 224) * 64 + (b - 128)) * 64 + (c - 128);
          n4 = (((a - 240) * 64 + (b - 128)) * 64 + (c - 128)) * 64 + (d - 128)
      in if a < 128 then (a, 1)
         else if 194 \<le> a \<and> a < 224 \<and> cont b then (n2, 2)
         else if 224 \<le> a \<and> a < 240 \<and> cont b \<and> cont c
                 \<and> 2048 \<le> n3 \<and> \<not> (55296 \<le> n3 \<and> n3 < 57344) then (n3, 3)
         else if 240 \<le> a \<and> a < 245 \<and> cont b \<and> cont c \<and> cont d
                 \<and> 65536 \<le> n4 \<and> n4 < 1114112 then (n4, 4)
         else (56320 + a, 1))"

fun code_points :: "string \<Rightarrow> nat list" where
  "code_points [] = []"
| "code_points (a # s) =
     fst (utf8_head (a # s)) # code_points (drop (snd (utf8_head (a # s)) - 1) s)"

definition hex4_digits :: "nat \<Rightarrow> string" where
  "hex4_digits n =
     [hex_char (n div 16 div 16 div 16), hex_char (n div 16 div 16 mod 16),
      hex_char (n div 16 mod 16), hex_char (n mod 16)]"

text \<open>
  \<open>encode_basestring_ascii\<close>: the quote, the backslash and five control characters have
  two-character escapes; a character from \<open>' '\<close> to \<open>'~'\<close> stands for itself; every other code
  point is written \<open>\uXXXX\<close>, one beyond U+FFFF as the two escapes of its surrogate pair.
\<close>

definition escape_code_point :: "nat \<Rightarrow> string" where
  "escape_code_point n =
     (if n = 34 then [CHR 0x5C, CHR 0x22]
      else if n = 92 then [CHR 0x5C, CHR 0x5C]
      else if n = 10 then [CHR 0x5C, CHR ''n'']
      else if n = 13 then [CHR 0x5C, CHR ''r'']
      else if n = 9 then [CHR 0x5C, CHR ''t'']
      else if n = 8 then [CHR 0x5C, CHR ''b'']
      else if n = 12 then [CHR 0x5C, CHR ''f'']
      else if 32 \<le> n \<and> n \<le> 126 then [char_of n]
      else if n < 65536 then [CHR 0x5C, CHR ''u''] @ hex4_digits n
      else [CHR 0x5C, CHR ''u''] @ hex4_digits (55296 + (n - 65536) div 1024)
         @ [CHR 0x5C, CHR ''u''] @ hex4_digits (56320 + (n - 65536) mod 1024))"

definition escape :: "string \<Rightarrow> string" where
  "escape s = concat (map escape_code_point (code_points s))"

definition encode_basestring_ascii :: "string \<Rightarrow> string" where
  "encode_basestring_ascii s = CHR 0x22 # escape s @ [CHR 0x22]"

text \<open>\<open>'\n' + ' ' * (indent * level)\<close> with \<open>indent = 2\<close>.\<close>

definition newline_indent :: "nat \<Rightarrow> string" where
  "newline_indent level = CHR 0x0A # replicate (2 * level) CHR '' ''"

text \<open>
  The encoder of \<open>json.dumps(obj, indent=2)\<close> at nesting depth \<open>level\<close>: an empty list
  is \<open>[]\<close> and an empty dict \<open>{}\<close>; otherwise every element stands on a line of its own,
  indented by two more spaces, elements are separated by a comma at the end of the line,
  and a key is followed by a colon and one space. The second and third function print
  the elements after the first.
\<close>

fun iterencode :: "nat \<Rightarrow> json \<Rightarrow> string"
  and iterencode_list :: "nat \<Rightarrow> json list \<Rightarrow> string"
  and iterencode_dict :: "nat \<Rightarrow> (string \<times> json) list \<Rightarrow> string"
where
  "iterencode level JNull = ''null''"
| "iterencode level (JBool b) = (if b then ''true'' else ''false'')"
| "iterencode level (JInt i) = str_int i"
| "iterencode level (JStr s) = encode_basestring_ascii s"
| "iterencode level (JArr []) = ''[]''"
| "iterencode level (JArr (x # xs)) =
     ''['' @ newline_indent (Suc level) @ iterencode (Suc level) x
       @ iterencode_list (Suc level) xs @ newline_indent level @ '']''"
| "iterencode level (JObj []) = ''{}''"
| "iterencode level (JObj ((k, v) # kvs)) =
     ''{'' @ newline_indent (Suc level) @ encode_basestring_ascii k @ '': ''
       @ iterencode (Suc level) v
       @ iterencode_dict (Suc level) kvs @ newline_indent level @ ''}''"
| "iterencode_list level [] = []"
| "iterencode_list level (x # xs) =
     '','' @ newline_indent level @ iterencode level x @ iterencode_list level xs"
| "iterencode_dict level [] = []"
| "iterencode_dict level ((k, v) # kvs) =
     '','' @ newline_indent level @ encode_basestring_ascii k @ '': ''
       @ iterencode level v @ iterencode_dict level kvs"

definition json_dumps :: "json \<Rightarrow> string" where
  "json_dumps obj = iterencode 0 obj"

section \<open>\<open>json.loads\<close>\<close>

text \<open>
  The decoder of the standard library, for documents without floats. A number with a
  fraction or an exponent, \<open>NaN\<close> and \<open>Infinity\<close> are outside the model and give \<open>None\<close>, as
  does every document the decoder rejects with \<open>JSONDecodeError\<close>. An escape of a surrogate
  that has no partner gives a \<open>str\<close> with no UTF-8 encoding, and gives \<open>None\<close> as well.
\<close>

definition is_ws :: "char \<Rightarrow> bool" where
  "is_ws c = (c = CHR '' '' \<or> c = CHR 0x09 \<or> c = CHR 0x0A \<or> c = CHR 0x0D)"

definition skip_ws :: "string \<Rightarrow> string" where
  "skip_ws s = dropWhile is_ws s"

definition is_digit :: "char \<Rightarrow> bool" where
  "is_digit c = (48 \<le> (of_char c :: nat) \<and> (of_char c :: nat) \<le> 57)"

definition hex_val :: "char \<Rightarrow> nat option" where
  "hex_val c =
     (let n = (of_char c :: nat)
      in if 48 \<le> n \<and> n \<le> 57 then Some (n - 48)
         else if 97 \<le> n \<and> n \<le> 102 then Some (n - 87)
         else if 65 \<le> n \<and> n \<le> 70 then Some (n - 55)
         else None)"

text \<open>The character a backslash escape of one letter stands for (\<open>BACKSLASH\<close>).\<close>

definition unescape :: "char \<Rightarrow> char option" where
  "unescape e =
     (if e = CHR 0x22 then Some (CHR 0x22)
      else if e = CHR 0x5C then Some (CHR 0x5C)
      else if e = CHR ''/'' then Some (CHR ''/'')
      else if e = CHR ''b'' then Some (CHR 0x08)
      else if e = CHR ''f'' then Some (CHR 0x0C)
      else if e = CHR ''n'' then Some (CHR 0x0A)
      else if e = CHR ''r'' then Some (CHR 0x0D)
      else if e = CHR ''t'' then Some (CHR 0x09)
      else None)"

text \<open>The four hexadecimal digits after \<open>\u\<close>.\<close>

definition hex4 :: "char \<Rightarrow> char \<Rightarrow> char \<Rightarrow> char \<Rightarrow> nat option" where
  "hex4 a b c d =
     (case (hex_val a, hex_val b, hex_val c, hex_val d) of
        (Some p, Some q, Some r, Some t) \<Rightarrow> Some (((p * 16 + q) * 16 + r) * 16 + t)
      | _ \<Rightarrow> None)"

text \<open>
  The UTF-8 encoding of a code point; U+DC80 to U+DCFF give back the byte they stand for.
\<close>

definition utf8_encode :: "nat \<Rightarrow> string option" where
  "utf8_encode n =
     (if n < 128 then Some [char_of n]
      else if n < 2048 then Some [char_of (192 + n div 64), char_of (128 + n mod 64)]
      else if 56448 \<le> n \<and> n < 56576 then Some [char_of (n - 56320)]
      else if 55296 \<le> n \<and> n < 57344 then None
      else if n < 65536 then
        Some [char_of (224 + n div 64 div 64), char_of (128 + n div 64 mod 64),
              char_of (128 + n mod 64)]
      else if n < 1114112 then
        Some [char_of (240 + n div 64 div 64 div 64), char_of (128 + n div 64 div 64 mod 64),
              char_of (128 + n div 64 mod 64), char_of (128 + n mod 64)]
      else None)"

(*value "code_points [CHR 0xE2, CHR 0x80, CHR 0x94, CHR ''a'', CHR 0xF0, CHR 0x9F, CHR 0x98, CHR 0x80, CHR 0xE9, CHR 0xC3, CHR 0xA9, CHR 0xED, CHR 0xA0, CHR 0x80]"
value "map utf8_encode (code_points [CHR 0xE2, CHR 0x80, CHR 0x94, CHR ''a'', CHR 0xF0, CHR 0x9F, CHR 0x98, CHR 0x80, CHR 0xE9, CHR 0xC3, CHR 0xA9, CHR 0xED, CHR 0xA0, CHR 0x80])"*)

text \<open>
  What follows \<open>\u\<close>: four hexadecimal digits, and when they are a high surrogate and the
  escape of a low surrogate comes next, both together. The code point and the number of
  characters read.
\<close>

definition unicode_escape :: "string \<Rightarrow> (nat \<times> nat) option" where
  "unicode_escape es =
     (case es of
        a # b # c # d # rest \<Rightarrow>
          (case hex4 a b c d of
             None \<Rightarrow> None
           | Some n \<Rightarrow>
               if 55296 \<le> n \<and> n < 56320 then
                 (case rest of
                    bs # u # a2 # b2 # c2 # d2 # _ \<Rightarrow>
                      if bs = CHR 0x5C \<and> u = CHR ''u'' then
                        (case hex4 a2 b2 c2 d2 of
                           None \<Rightarrow> None
                         | Some m \<Rightarrow>
                             if 56320 \<le> m \<and> m < 57344
                             then Some (65536 + ((n - 55296) * 1024 + (m - 56320)), 10)
                             else Some (n, 4))
                      else Some (n, 4)
                  | _ \<Rightarrow> Some (n, 4))
               else Some (n, 4))
      | _ \<Rightarrow> None)"

definition prepend :: "string option \<Rightarrow> (string \<times> string) option \<Rightarrow> (string \<times> string) option" where
  "prepend bs r =
     (case bs of
        None \<Rightarrow> None
      | Some b \<Rightarrow> (case r of None \<Rightarrow> None | Some (t, rest) \<Rightarrow> Some (b @ t, rest)))"

text \<open>
  \<open>scanstring\<close>, called behind the opening quote: the string up to the closing quote and
  the text behind it. A control character in the string is refused (strict mode).
\<close>

fun scanstring :: "string \<Rightarrow> (string \<times> string) option" where
  "scanstring [] = None"
| "scanstring (c # cs) =
     (if c = CHR 0x22 then Some ([], cs)
      else if c = CHR 0x5C then
        (case cs of
           [] \<Rightarrow> None
         | e # es \<Rightarrow>
             if e = CHR ''u'' then
               (case unicode_escape es of
                  None \<Rightarrow> None
                | Some (n, k) \<Rightarrow> prepend (utf8_encode n) (scanstring (drop k es)))
             else
               (case unescape e of
                  None \<Rightarrow> None
                | Some ch \<Rightarrow> prepend (Some [ch]) (scanstring es)))
      else if (of_char c :: nat) < 32 then None
      else prepend (Some [c]) (scanstring cs))"

text \<open>The value of a string of decimal digits.\<close>

definition nat_of_digits :: "string \<Rightarrow> nat" where
  "nat_of_digits ds = foldl (\<lambda>acc c. 10 * acc + ((of_char c :: nat) - 48)) 0 ds"

text \<open>
  A number: an optional minus, then \<open>0\<close> or a digit from 1 to 9 followed by digits. A
  fraction or an exponent behind it makes a float, or leaves text no document continues
  with.
\<close>

definition scan_int :: "string \<Rightarrow> (int \<times> string) option" where
  "scan_int s =
     (let neg = (s \<noteq> [] \<and> hd s = CHR ''-'');
          s1 = (if neg then tl s else s);
          ds = (if s1 \<noteq> [] \<and> hd s1 = CHR ''0'' then ''0'' else takeWhile is_digit s1);
          rest = drop (length ds) s1
      in if ds = [] then None
         else if rest \<noteq> [] \<and> hd rest \<in> set ''.eE'' then None
         else Some (if neg then - int (nat_of_digits ds) else int (nat_of_digits ds), rest))"

text \<open>\<open>d[k] = v\<close> on a dict held as the list of its items.\<close>

fun dict_set :: "string \<Rightarrow> json \<Rightarrow> (string \<times> json) list \<Rightarrow> (string \<times> json) list" where
  "dict_set k v [] = [(k, v)]"
| "dict_set k v ((k', v') # d) = (if k' = k then (k, v) # d else (k', v') # dict_set k v d)"

text \<open>\<open>dict(pairs)\<close>.\<close>

definition dict_of :: "(string \<times> json) list \<Rightarrow> (string \<times> json) list" where
  "dict_of pairs = foldl (\<lambda>d kv. dict_set (fst kv) (snd kv) d) [] pairs"

text \<open>
  \<open>scan_once\<close>, \<open>JSONArray\<close> and \<open>JSONObject\<close>. The first argument bounds the depth of the
  calls. \<open>parse_elements\<close> stands at the first character of an element and returns the
  elements up to the closing bracket; \<open>parse_members\<close> stands behind the opening quote of
  a key and returns the pairs up to the closing brace.
\<close>

fun parse_value :: "nat \<Rightarrow> string \<Rightarrow> (json \<times> string) option"
  and parse_elements :: "nat \<Rightarrow> string \<Rightarrow> (json list \<times> string) option"
  and parse_members :: "nat \<Rightarrow> string \<Rightarrow> ((string \<times> json) list \<times> string) option"
where
  "parse_value 0 s = None"
| "parse_value (Suc n) [] = None"
| "parse_value (Suc n) (c # cs) =
     (if c = CHR 0x22 then
        (case scanstring cs of None \<Rightarrow> None | Some (t, rest) \<Rightarrow> Some (JStr t, rest))
      else if c = CHR ''{'' then
        (case skip_ws cs of
           [] \<Rightarrow> None
         | d # ds \<Rightarrow>
             if d = CHR ''}'' then Some (JObj [], ds)
             else if d = CHR 0x22 then
               (case parse_members n ds of
                  None \<Rightarrow> None
                | Some (pairs, rest) \<Rightarrow> Some (JObj (dict_of pairs), rest))
             else None)
      else if c = CHR ''['' then
        (case skip_ws cs of
           [] \<Rightarrow> None
         | d # ds \<Rightarrow>
             if d = CHR '']'' then Some (JArr [], ds)
             else
               (case parse_elements n (d # ds) of
                  None \<Rightarrow> None
                | Some (vs, rest) \<Rightarrow> Some (JArr vs, rest)))
      else if c = CHR ''n'' \<and> take 3 cs = ''ull'' then Some (JNull, drop 3 cs)
      else if c = CHR ''t'' \<and> take 3 cs = ''rue'' then Some (JBool True, drop 3 cs)
      else if c = CHR ''f'' \<and> take 4 cs = ''alse'' then Some (JBool False, drop 4 cs)
      else
        (case scan_int (c # cs) of None \<Rightarrow> None | Some (i, rest) \<Rightarrow> Some (JInt i, rest)))"
| "parse_elements 0 s = None"
| "parse_elements (Suc n) s =
     (case parse_value n s of
        None \<Rightarrow> None
      | Some (v, s1) \<Rightarrow>
          (case skip_ws s1 of
             [] \<Rightarrow> None
           | c # cs \<Rightarrow>
               if c = CHR '']'' then Some ([v], cs)
               else if c = CHR '','' then
                 (case parse_elements n (skip_ws cs) of
                    None \<Rightarrow> None
                  | Some (vs, rest) \<Rightarrow> Some (v # vs, rest))
               else None))"
| "parse_members 0 s = None"
| "parse_members (Suc n) s =
     (case scanstring s of
        None \<Rightarrow> None
      | Some (k, s1) \<Rightarrow>
          (case skip_ws s1 of
             [] \<Rightarrow> None
           | c # cs \<Rightarrow>
               if c \<noteq> CHR '':'' then None
               else
                 (case parse_value n (skip_ws cs) of
                    None \<Rightarrow> None
                  | Some (v, s2) \<Rightarrow>
                      (case skip_ws s2 of
                         [] \<Rightarrow> None
                       | e # es \<Rightarrow>
                           if e = CHR ''}'' then Some ([(k, v)], es)
                           else if e = CHR '','' then
                             (case skip_ws es of
                                [] \<Rightarrow> None
                              | q # qs \<Rightarrow>
                                  if q \<noteq> CHR 0x22 then None
                                  else
                                    (case parse_members n qs of
                                       None \<Rightarrow> None
                                     | Some (pairs, rest) \<Rightarrow> Some ((k, v) # pairs, rest)))
                           else None))))"

text \<open>
  \<open>json.loads(s)\<close>: white space, one value, white space, and nothing behind it. The depth
  of the calls is bounded by the length of the document, which is enough for every text
  \<open>json.dumps\<close> writes.
\<close>

definition json_loads :: "string \<Rightarrow> json option" where
  "json_loads s =
     (case parse_value (length s) (skip_ws s) of
        None \<Rightarrow> None
      | Some (v, rest) \<Rightarrow> if skip_ws rest = [] then Some v else None)"

text \<open>
  What may follow a number: the end of the text, or a character that neither continues
  the digits nor starts a fraction or an exponent.
\<close>

definition number_ends :: "string \<Rightarrow> bool" where
  "number_ends rest = (case rest of [] \<Rightarrow> True | c # _ \<Rightarrow> \<not> is_digit c \<and> c \<notin> set ''.eE'')"

text \<open>
  The JSON values that are Python values: within a dict every key occurs once.
\<close>

fun py_value :: "json \<Rightarrow> bool"
  and py_values :: "json list \<Rightarrow> bool"
  and py_items :: "(string \<times> json) list \<Rightarrow> bool"
where
  "py_value (JArr xs) = py_values xs"
| "py_value (JObj kvs) = (distinct (map fst kvs) \<and> py_items kvs)"
| "py_value v = True"
| "py_values [] = True"
| "py_values (x # xs) = (py_value x \<and> py_values xs)"
| "py_items [] = True"
| "py_items ((k, v) # kvs) = (py_value v \<and> py_items kvs)"

section \<open>The data model\<close>

text \<open>
  The fields of \<open>ClothingItem\<close>, in the order the class declares them. The class holds
  \<open>features\<close> as a \<open>Set[str]\<close>; the dict made from it holds a list. The record is
  polymorphic in that one field.
\<close>

record 'f attributes =
  category :: string
  description :: string
  color :: "string list"
  gender :: string
  fabric :: string
  pattern :: string
  fit :: string
  sleeve_length :: string
  neck_type :: string
  occasion :: "string list"
  season :: "string list"
  features :: 'f

text \<open>
  \<open>ClothingItem\<close>. A Python set is held with the order in which it iterates: a
  \<^typ>\<open>string dlist\<close> is a list without repeated elements.
\<close>

type_synonym clothing_item = "string dlist attributes"

text \<open>
  A stored wardrobe entry: the dict \<open>json.loads(clothing_item.model_dump_json())\<close> with
  the key \<open>'id'\<close> added. Its keys are fixed by the class, so it is a record.
\<close>

record item_dict = "string list attributes" +
  id_key :: int

record outfit_recommendation =
  recommended_items :: "string list"
  reasoning :: string
  style_tips :: "string list"

text \<open>
  \<open>json.loads(clothing_item.model_dump_json())\<close> with \<open>item_dict['id'] = n\<close>: every field
  is copied, the set of features is listed in its iteration order.
\<close>

definition model_dump :: "clothing_item \<Rightarrow> int \<Rightarrow> item_dict" where
  "model_dump c n =
     \<lparr>category = category c, description = description c, color = color c,
      gender = gender c, fabric = fabric c, pattern = pattern c, fit = fit c,
      sleeve_length = sleeve_length c, neck_type = neck_type c,
      occasion = occasion c, season = season c,
      features = list_of_dlist (features c), id_key = n\<rparr>"

text \<open>
  The items of the dict \<open>json.loads(clothing_item.model_dump_json())\<close> as JSON values, keys
  in the order the class declares its fields.
\<close>

definition attributes_json :: "(string list, 'z) attributes_scheme \<Rightarrow> (string \<times> json) list" where
  "attributes_json item =
     [(''category'', JStr (category item)),
      (''description'', JStr (description item)),
      (''color'', JArr (map JStr (color item))),
      (''gender'', JStr (gender item)),
      (''fabric'', JStr (fabric item)),
      (''pattern'', JStr (pattern item)),
      (''fit'', JStr (fit item)),
      (''sleeve_length'', JStr (sleeve_length item)),
      (''neck_type'', JStr (neck_type item)),
      (''occasion'', JArr (map JStr (occasion item))),
      (''season'', JArr (map JStr (season item))),
      (''features'', JArr (map JStr (features item)))]"

text \<open>The JSON value of a stored entry: the key \<open>'id'\<close> was inserted last.\<close>

definition item_json :: "item_dict \<Rightarrow> json" where
  "item_json item = JObj (attributes_json item @ [(''id'', JInt (id_key item))])"

section \<open>The Model Gateway and the page\<close>

datatype content = Text string | Image_url string

datatype message = SystemMessage "content list" | HumanMessage "content list"

text \<open>
  What \<open>invoke\<close> does on one call: it returns the parsed structured output, or raises an
  \<open>Exception\<close> whose \<open>str(e)\<close> is the string.
\<close>

datatype 'a outcome = Returned 'a | Raised string

text \<open>What the Streamlit calls of the modelled functions put on the page, in order.\<close>

datatype widget =
    Subheader string
  | Write string
  | Error string
  | Warning string
  | Info string
  | Success string
  | Json json
  | Download_button string string string string
  | Expander string "widget list"
  | Columns "widget list list"

text \<open>
  The state the functions work on: \<open>self.wardrobe\<close>, the prompts passed to \<open>invoke\<close> so
  far (of either structured model), and the page.
\<close>

record session =
  wardrobe :: "item_dict list"
  invoked :: "message list list"
  page :: "widget list"

definition init :: session where
  "init = \<lparr>wardrobe = [], invoked = [], page = []\<rparr>"

definition st :: "widget \<Rightarrow> session \<Rightarrow> session" where
  "st w s = s\<lparr>page := page s @ [w]\<rparr>"

section \<open>StyleSyncBot\<close>

definition encode_image :: "8 word list \<Rightarrow> string" where
  "encode_image image_bytes = b64encode image_bytes"

definition nl :: string where
  "nl = [CHR 0x0A]"

definition margin :: string where
  "margin = replicate 24 CHR '' ''"

definition analyze_prompt :: "string \<Rightarrow> message list" where
  "analyze_prompt image_base64 =
     [SystemMessage [Text (
        ''You are an expert fashion analyst. Analyze the clothing item in the image and extract detailed information about its properties. '' @ nl @
        margin @ ''Focus on identifying the category, colors, fabric type, pattern, fit, and other relevant fashion attributes.'' @ nl @
        margin @ ''Be specific and accurate in your analysis. If certain attributes are not clearly visible, make reasonable inferences based on what you can see.'' @ nl @
        margin @ ''Output the information in the specified JSON format.'')],
      HumanMessage [Text ''Analyze this clothing item and extract its properties.'',
                    Image_url (''data:image/jpeg;base64,'' @ image_base64)]]"

text \<open>
  \<open>analyze_clothing_image\<close>: the whole body stands in a \<open>try\<close>; a raised exception is
  shown with \<open>st.error\<close> and the function returns \<open>None\<close>.
\<close>

definition analyze_clothing_image ::
  "(message list \<Rightarrow> clothing_item outcome) \<Rightarrow> 8 word list \<Rightarrow> session
     \<Rightarrow> clothing_item option \<times> session" where
  "analyze_clothing_image structured_llm image_bytes s =
     (let image_base64 = encode_image image_bytes;
          prompt = analyze_prompt image_base64;
          s1 = s\<lparr>invoked := invoked s @ [prompt]\<rparr>
      in case structured_llm prompt of
           Returned response \<Rightarrow> (Some response, s1)
         | Raised e \<Rightarrow> (None, st (Error (''Error analyzing image: '' @ e)) s1))"

definition add_to_wardrobe :: "clothing_item \<Rightarrow> session \<Rightarrow> int \<times> session" where
  "add_to_wardrobe clothing_item s =
     (let item_dict = model_dump clothing_item (int (length (wardrobe s)) + 1)
      in (id_key item_dict, s\<lparr>wardrobe := wardrobe s @ [item_dict]\<rparr>))"

definition recommend_prompt :: "item_dict list \<Rightarrow> string \<Rightarrow> int \<Rightarrow> message list" where
  "recommend_prompt w user_preferences num_recommendations =
     [SystemMessage [Text (
        ''You are an expert fashion stylist. Based on the user's preferences and their wardrobe items, '' @ nl @
        margin @ ''recommend complete outfits that match their needs. Consider color coordination, style compatibility, occasion appropriateness, and seasonal suitability.'' @ nl @
        margin @ nl @
        margin @ ''User's Wardrobe:'' @ nl @
        margin @ json_dumps (JArr (map item_json w)) @ nl @
        margin @ nl @
        margin @ ''Guidelines:'' @ nl @
        margin @ ''1. Recommend complete outfits (try to include both top and bottom wear when applicable)'' @ nl @
        margin @ ''2. Consider color harmony and style coherence'' @ nl @
        margin @ ''3. Match the occasion and season specified by the user'' @ nl @
        margin @ ''4. Provide practical styling advice'' @ nl @
        margin @ ''5. Maximum '' @ str_int num_recommendations @ '' outfit recommendations'' @ nl @
        margin @ ''6. Only use item IDs that exist in the wardrobe'')],
      HumanMessage [Text (''User preferences: '' @ user_preferences)]]"

text \<open>
  \<open>get_outfit_recommendations\<close>: an empty wardrobe returns \<open>None\<close> before the \<open>try\<close>;
  a raised exception is shown with \<open>st.error\<close> and returns \<open>None\<close> as well.
\<close>

definition get_outfit_recommendations ::
  "(message list \<Rightarrow> outfit_recommendation outcome) \<Rightarrow> string \<Rightarrow> int \<Rightarrow> session
     \<Rightarrow> outfit_recommendation option \<times> session" where
  "get_outfit_recommendations recommendation_llm user_preferences num_recommendations s =
     (if wardrobe s = [] then (None, s)
      else
        let prompt = recommend_prompt (wardrobe s) user_preferences num_recommendations;
            s1 = s\<lparr>invoked := invoked s @ [prompt]\<rparr>
        in case recommendation_llm prompt of
             Returned response \<Rightarrow> (Some response, s1)
           | Raised e \<Rightarrow> (None, st (Error (''Error getting recommendations: '' @ e)) s1))"

text \<open>The argument of \<open>get_item_by_id\<close>: annotated \<open>str\<close>, and passed through \<open>str()\<close>.\<close>

datatype py_id = Id_int int | Id_str string

fun str :: "py_id \<Rightarrow> string" where
  "str (Id_int i) = str_int i"
| "str (Id_str t) = t"

fun scan :: "item_dict list \<Rightarrow> string \<Rightarrow> item_dict option" where
  "scan [] key = None"
| "scan (item # rest) key = (if str (Id_int (id_key item)) = key then Some item else scan rest key)"

definition get_item_by_id :: "py_id \<Rightarrow> session \<Rightarrow> item_dict option \<times> session" where
  "get_item_by_id item_id s = (scan (wardrobe s) (str item_id), s)"

definition glyph_subheader :: string where
  "glyph_subheader = [CHR 0xEF, CHR 0xA3, CHR 0xBF, CHR 0xC3, CHR 0xBC, CHR 0xC3, CHR 0xA9, CHR 0xC3, CHR 0x98]"

definition glyph_tip :: string where
  "glyph_tip = [CHR 0xE2, CHR 0x80, CHR 0x9A, CHR 0xC3, CHR 0x84, CHR 0xC2, CHR 0xA2]"

definition glyph_success :: string where
  "glyph_success = [CHR 0xE2, CHR 0x80, CHR 0x9A, CHR 0xC3, CHR 0xBA, CHR 0xC3, CHR 0x96]"

text \<open>The expander \<open>display_outfit_recommendation\<close> opens for an entry it found.\<close>

definition item_expander :: "string \<Rightarrow> item_dict \<Rightarrow> widget" where
  "item_expander item_id item =
     Expander (''Item '' @ item_id @ '': '' @ category item @ '' - '' @ join '', '' (color item))
       [Columns
         [[Write (''**Description:** '' @ description item),
           Write (''**Fabric:** '' @ fabric item),
           Write (''**Pattern:** '' @ pattern item),
           Write (''**Fit:** '' @ fit item)],
          [Write (''**Occasions:** '' @ join '', '' (occasion item)),
           Write (''**Seasons:** '' @ join '', '' (season item)),
           Write (''**Features:** '' @ join '', '' (features item))]]]"

text \<open>
  The loop over \<open>recommendation.recommended_items\<close>: \<open>if item:\<close> holds for every entry
  found (a dict with keys) and fails for \<open>None\<close>.
\<close>

fun display_items :: "string list \<Rightarrow> session \<Rightarrow> session" where
  "display_items [] s = s"
| "display_items (item_id # rest) s =
     (case get_item_by_id (Id_str item_id) s of
        (Some item, s1) \<Rightarrow> display_items rest (st (item_expander item_id item) s1)
      | (None, s1) \<Rightarrow> display_items rest s1)"

fun display_tips :: "string list \<Rightarrow> session \<Rightarrow> session" where
  "display_tips [] s = s"
| "display_tips (tip # rest) s = display_tips rest (st (Write (glyph_tip @ '' '' @ tip)) s)"

definition display_outfit_recommendation :: "outfit_recommendation \<Rightarrow> session \<Rightarrow> session" where
  "display_outfit_recommendation recommendation s =
     (let s1 = st (Subheader (glyph_subheader @ '' Recommended Outfit'')) s;
          s2 = st (Write ''**Outfit Items:**'') s1;
          s3 = display_items (recommended_items recommendation) s2;
          s4 = st (Write ''**Why this outfit works:**'') s3;
          s5 = st (Write (reasoning recommendation)) s4
      in if style_tips recommendation \<noteq> []
         then display_tips (style_tips recommendation) (st (Write ''**Styling Tips:**'') s5)
         else s5)"

section \<open>The handlers of \<open>main\<close>\<close>

text \<open>
  The "Analyze" button: the item is added only when \<open>analyze_clothing_image\<close> returned
  one (\<open>if clothing_item:\<close>). \<open>st.json\<close> shows the dump of the item, which has no key \<open>'id'\<close>.
\<close>

definition main_analyze ::
  "(message list \<Rightarrow> clothing_item outcome) \<Rightarrow> 8 word list \<Rightarrow> session \<Rightarrow> session" where
  "main_analyze structured_llm image_bytes s =
     (case analyze_clothing_image structured_llm image_bytes s of
        (None, s1) \<Rightarrow> s1
      | (Some clothing_item, s1) \<Rightarrow>
          (case add_to_wardrobe clothing_item s1 of
             (item_id, s2) \<Rightarrow>
               st (Json (JObj (attributes_json (model_dump clothing_item item_id))))
                 (st (Success (glyph_success @ '' Added to wardrobe as Item #'' @ str_int item_id)) s2)))"

text \<open>
  The recommendations tab with the "Get Recommendations" button pressed. Without a
  wardrobe the tab shows a warning and no button; otherwise a recommendation is
  displayed, and \<open>None\<close> gives the message to try again.
\<close>

definition main_recommend ::
  "(message list \<Rightarrow> outfit_recommendation outcome) \<Rightarrow> string \<Rightarrow> session \<Rightarrow> session" where
  "main_recommend recommendation_llm user_preferences s =
     (if wardrobe s = []
      then st (Warning ''Please add some clothing items to your wardrobe first!'') s
      else
        (case get_outfit_recommendations recommendation_llm user_preferences 3 s of
           (Some recommendations, s1) \<Rightarrow> display_outfit_recommendation recommendations s1
         | (None, s1) \<Rightarrow>
             st (Error ''Could not generate recommendations. Please try again.'') s1))"

text \<open>
  The wardrobe tab lists \<open>bot.wardrobe\<close> in its order, one expander per entry; without a
  wardrobe it shows a note, and neither the list nor the export button.
\<close>

definition wardrobe_expander :: "item_dict \<Rightarrow> widget" where
  "wardrobe_expander item =
     Expander (''Item #'' @ str_int (id_key item) @ '': '' @ category item @ '' - ''
                 @ join '', '' (color item))
       [Columns
         [[Write (''**Category:** '' @ category item),
           Write (''**Colors:** '' @ join '', '' (color item)),
           Write (''**Pattern:** '' @ pattern item),
           Write (''**Fabric:** '' @ fabric item)],
          [Write (''**Fit:** '' @ fit item),
           Write (''**Sleeve Length:** '' @ sleeve_length item),
           Write (''**Neck Type:** '' @ neck_type item),
           Write (''**Gender:** '' @ gender item)],
          [Write (''**Occasions:** '' @ join '', '' (occasion item)),
           Write (''**Seasons:** '' @ join '', '' (season item)),
           Write (''**Features:** '' @ join '', '' (features item))]],
        Write (''**Description:** '' @ description item)]"

fun main_list_items :: "item_dict list \<Rightarrow> session \<Rightarrow> session" where
  "main_list_items [] s = s"
| "main_list_items (item # rest) s = main_list_items rest (st (wardrobe_expander item) s)"

definition main_list :: "session \<Rightarrow> session" where
  "main_list s =
     (if wardrobe s = []
      then st (Info ''Your wardrobe is empty. Start by adding some clothing items!'') s
      else main_list_items (wardrobe s) s)"

text \<open>
  The "Export Wardrobe as JSON" button: \<open>json.dumps(bot.wardrobe, indent=2)\<close> is offered
  for download (label, data, file name, MIME type).
\<close>

definition export :: "item_dict list \<Rightarrow> string" where
  "export w = json_dumps (JArr (map item_json w))"

definition main_export :: "session \<Rightarrow> session" where
  "main_export s =
     (if wardrobe s = []
      then st (Info ''Your wardrobe is empty. Start by adding some clothing items!'') s
      else
        let wardrobe_json = export (wardrobe s)
        in st (Download_button ''Download Wardrobe JSON'' wardrobe_json
                 ''my_wardrobe.json'' ''application/json'') s)"

section \<open>Reading an export back\<close>

text \<open>
  Reading the reparsed export back into entries: \<open>d[key]\<close> for each key, a string where
  the entry holds a string, a list of strings where it holds a list, an int for the id.
\<close>

fun get_str :: "json \<Rightarrow> string option" where
  "get_str (JStr s) = Some s"
| "get_str v = None"

fun get_int :: "json \<Rightarrow> int option" where
  "get_int (JInt i) = Some i"
| "get_int v = None"

fun get_strs_list :: "json list \<Rightarrow> string list option" where
  "get_strs_list [] = Some []"
| "get_strs_list (x # xs) =
     (case get_str x of
        None \<Rightarrow> None
      | Some s \<Rightarrow> (case get_strs_list xs of None \<Rightarrow> None | Some ss \<Rightarrow> Some (s # ss)))"

fun get_strs :: "json \<Rightarrow> string list option" where
  "get_strs (JArr xs) = get_strs_list xs"
| "get_strs v = None"

definition field :: "(string \<times> json) list \<Rightarrow> string \<Rightarrow> (json \<Rightarrow> 'a option) \<Rightarrow> 'a option" where
  "field d key get = (case map_of d key of None \<Rightarrow> None | Some v \<Rightarrow> get v)"

fun read_item :: "json \<Rightarrow> item_dict option" where
  "read_item (JObj d) =
     Option.bind (field d ''category'' get_str) (\<lambda>category.
     Option.bind (field d ''description'' get_str) (\<lambda>description.
     Option.bind (field d ''color'' get_strs) (\<lambda>color.
     Option.bind (field d ''gender'' get_str) (\<lambda>gender.
     Option.bind (field d ''fabric'' get_str) (\<lambda>fabric.
     Option.bind (field d ''pattern'' get_str) (\<lambda>pattern.
     Option.bind (field d ''fit'' get_str) (\<lambda>fit.
     Option.bind (field d ''sleeve_length'' get_str) (\<lambda>sleeve_length.
     Option.bind (field d ''neck_type'' get_str) (\<lambda>neck_type.
     Option.bind (field d ''occasion'' get_strs) (\<lambda>occasion.
     Option.bind (field d ''season'' get_strs) (\<lambda>season.
     Option.bind (field d ''features'' get_strs) (\<lambda>features.
     Option.bind (field d ''id'' get_int) (\<lambda>id_key.
       Some \<lparr>category = category, description = description, color = color,
             gender = gender, fabric = fabric, pattern = pattern, fit = fit,
             sleeve_length = sleeve_length, neck_type = neck_type,
             occasion = occasion, season = season, features = features,
             id_key = id_key\<rparr>)))))))))))))"
| "read_item v = None"

fun read_items :: "json list \<Rightarrow> item_dict list option" where
  "read_items [] = Some []"
| "read_items (x # xs) =
     (case read_item x of
        None \<Rightarrow> None
      | Some item \<Rightarrow> (case read_items xs of None \<Rightarrow> None | Some items \<Rightarrow> Some (item # items)))"

fun read_wardrobe :: "json \<Rightarrow> item_dict list option" where
  "read_wardrobe (JArr xs) = read_items xs"
| "read_wardrobe v = None"

text \<open>Export, reparse, read back.\<close>

definition reparse :: "string \<Rightarrow> item_dict list option" where
  "reparse text = (case json_loads text of None \<Rightarrow> None | Some v \<Rightarrow> read_wardrobe v)"

section \<open>Sequences of calls\<close>

text \<open>\<open>add_to_wardrobe\<close> called once per item of a list, in order; the ids it returned.\<close>

fun add_all :: "clothing_item list \<Rightarrow> session \<Rightarrow> int list \<times> session" where
  "add_all [] s = ([], s)"
| "add_all (c # cs) s =
     (case add_to_wardrobe c s of
        (i, s1) \<Rightarrow> (case add_all cs s1 of (ids, s2) \<Rightarrow> (i # ids, s2)))"

text \<open>The ids of a wardrobe of \<open>n\<close> entries are \<open>1, 2, ..., n\<close> in the order of the list.\<close>

definition sequential_ids :: "item_dict list \<Rightarrow> bool" where
  "sequential_ids w = (map id_key w = [1 .. int (length w)])"

section \<open>Example data\<close>

text \<open>Two items as the attribute extractor may return them, used to run the functions.\<close>

definition tshirt :: clothing_item where
  "tshirt =
     \<lparr>category = ''T-Shirt'', description = ''A plain blue cotton t-shirt'',
      color = [''Blue''], gender = ''Unisex'', fabric = ''Cotton'', pattern = ''Solid'',
      fit = ''Regular Fit'', sleeve_length = ''Short'', neck_type = ''Round'',
      occasion = [''Casual''], season = [''Summer''],
      features = Dlist.insert ''Breathable'' Dlist.empty\<rparr>"

definition jeans :: clothing_item where
  "jeans =
     \<lparr>category = ''Pants'', description = ''Dark slim jeans'',
      color = [''Black'', ''Grey''], gender = ''Male'', fabric = ''Denim'', pattern = ''Solid'',
      fit = ''Slim Fit'', sleeve_length = ''N/A'', neck_type = ''N/A'',
      occasion = [''Casual'', ''Party''], season = [''Fall'', ''Winter''],
      features = Dlist.insert ''Pockets'' (Dlist.insert ''Stretch'' Dlist.empty)\<rparr>"

text \<open>The session after both items were added to an empty wardrobe.\<close>

definition two_items :: session where
  "two_items = snd (add_all [tshirt, jeans] init)"

text \<open>
  A recommendation as the model may return it: the second id names no entry of a wardrobe
  of two.
\<close>

definition stale_outfit :: outfit_recommendation where
  "stale_outfit =
     \<lparr>recommended_items = [''1'', ''99''], reasoning = ''Blue goes with black.'',
      style_tips = [''Roll the sleeves.'']\<rparr>"

section \<open>Decimal printing is injective\<close>

lemma digit_char_code: "d < 10 \<Longrightarrow> (of_char (digit_char d) :: nat) = 48 + d"
proof -
  assume "d < 10"
  then have "d \<in> {0, 1, 2, 3, 4, 5, 6, 7, 8, 9}" by auto
  then show ?thesis by (auto simp: digit_char_def)
qed

lemma digit_char_inj: "a < 10 \<Longrightarrow> b < 10 \<Longrightarrow> digit_char a = digit_char b \<Longrightarrow> a = b"
proof -
  assume a: "a < 10" and b: "b < 10" and eq: "digit_char a = digit_char b"
  have "48 + a = (of_char (digit_char a) :: nat)" using a by (simp only: digit_char_code)
  also have "\<dots> = of_char (digit_char b)" by (simp only: eq)
  also have "\<dots> = 48 + b" using b by (simp only: digit_char_code)
  finally show "a = b" by simp
qed

lemma digits_nonempty: "digits n \<noteq> []"
  by (subst digits.simps) simp

lemma digits_inj: "digits m = digits n \<Longrightarrow> m = n"
proof (induction m arbitrary: n rule: digits.induct)
  case (1 m)
  show ?case
  proof (cases "m < 10")
    case small_m: True
    show ?thesis
    proof (cases "n < 10")
      case True
      with small_m "1.prems" show ?thesis
        by (simp add: digits.simps [of m] digits.simps [of n] digit_char_inj)
    next
      case False
      with small_m "1.prems" digits_nonempty [of "n div 10"] show ?thesis
        by (simp add: digits.simps [of m] digits.simps [of n])
    qed
  next
    case big_m: False
    show ?thesis
    proof (cases "n < 10")
      case True
      with big_m "1.prems" digits_nonempty [of "m div 10"] show ?thesis
        by (simp add: digits.simps [of m] digits.simps [of n])
    next
      case False
      with big_m "1.prems" have eq: "digits (m div 10) = digits (n div 10)"
        and last: "digit_char (m mod 10) = digit_char (n mod 10)"
        by (simp_all add: digits.simps [of m] digits.simps [of n])
      from "1.IH" [OF big_m eq] have "m div 10 = n div 10" .
      moreover from last have "m mod 10 = n mod 10"
        by (intro digit_char_inj) simp_all
      ultimately show ?thesis by (metis div_mult_mod_eq)
    qed
  qed
qed

lemma digits_is_digit: "c \<in> set (digits n) \<Longrightarrow> c \<in> set ''0123456789''"
proof (induction n rule: digits.induct)
  case (1 n)
  have dc: "\<And>d. d < 10 \<Longrightarrow> digit_char d \<in> set ''0123456789''"
    unfolding digit_char_def by (rule nth_mem) simp
  show ?case
  proof (cases "n < 10")
    case True
    with "1.prems" dc [of n] show ?thesis by (simp add: digits.simps [of n])
  next
    case False
    with "1.prems" "1.IH" dc [of "n mod 10"] show ?thesis
      by (auto simp add: digits.simps [of n])
  qed
qed

lemma digits_hd_zero: "hd (digits n) = CHR ''0'' \<Longrightarrow> n = 0"
proof (induction n rule: digits.induct)
  case (1 n)
  show ?case
  proof (cases "n < 10")
    case True
    with "1.prems" have "digit_char n = digit_char 0"
      by (simp add: digits.simps [of n] digit_char_def)
    with True show ?thesis using digit_char_inj [of n 0] by simp
  next
    case False
    with "1.prems" digits_nonempty [of "n div 10"] have "hd (digits (n div 10)) = CHR ''0''"
      by (simp add: digits.simps [of n])
    with "1.IH" False have "n div 10 = 0" by simp
    with False show ?thesis by simp
  qed
qed

lemma str_int_inj: "str_int i = str_int j \<Longrightarrow> i = j"
proof -
  assume eq: "str_int i = str_int j"
  have nd: "\<And>n. hd (digits n) \<noteq> CHR ''-''"
  proof
    fix n assume "hd (digits n) = CHR ''-''"
    moreover have "hd (digits n) \<in> set (digits n)" using digits_nonempty by simp
    ultimately show False using digits_is_digit [of "CHR ''-''" n] by auto
  qed
  show ?thesis
  proof (cases "i < 0")
    case ni: True
    show ?thesis
    proof (cases "j < 0")
      case True
      with ni eq have "digits (nat (- i)) = digits (nat (- j))" by (simp add: str_int_def)
      then have "nat (- i) = nat (- j)" by (rule digits_inj)
      with ni True show ?thesis by simp
    next
      case False
      with ni eq have "CHR ''-'' # digits (nat (- i)) = digits (nat j)" by (simp add: str_int_def)
      then have "hd (digits (nat j)) = CHR ''-''" by (metis list.sel(1))
      with nd show ?thesis by blast
    qed
  next
    case pi: False
    show ?thesis
    proof (cases "j < 0")
      case True
      with pi eq have "digits (nat i) = CHR ''-'' # digits (nat (- j))" by (simp add: str_int_def)
      then have "hd (digits (nat i)) = CHR ''-''" by (metis list.sel(1))
      with nd show ?thesis by blast
    next
      case False
      with pi eq have "digits (nat i) = digits (nat j)" by (simp add: str_int_def)
      then have "nat i = nat j" by (rule digits_inj)
      with pi False show ?thesis by simp
    qed
  qed
qed

section \<open>Facts about adding\<close>

lemma add_to_wardrobe_eq:
  "add_to_wardrobe c s =
     (int (length (wardrobe s)) + 1,
      s\<lparr>wardrobe := wardrobe s @ [model_dump c (int (length (wardrobe s)) + 1)]\<rparr>)"
  by (simp add: add_to_wardrobe_def model_dump_def Let_def)

lemma upto_shift: "[n + 1 .. n + 1 + int k] = (n + 1) # [n + 1 + 1 .. n + 1 + int k]"
  by (simp add: upto_rec1)

lemma add_all_eq:
  "add_all cs s =
     ([int (length (wardrobe s)) + 1 .. int (length (wardrobe s)) + int (length cs)],
      s\<lparr>wardrobe := wardrobe s @
           map2 model_dump cs [int (length (wardrobe s)) + 1 .. int (length (wardrobe s)) + int (length cs)]\<rparr>)"
proof (induction cs arbitrary: s)
  case Nil
  show ?case by simp
next
  case (Cons c cs)
  let ?n = "int (length (wardrobe s))"
  have up: "[?n + 1 .. ?n + (1 + int (length cs))] = (?n + 1) # [?n + 1 + 1 .. ?n + 1 + int (length cs)]"
    by (simp add: upto_rec1 [of "?n + 1"] add.assoc)
  show ?case
    by (simp add: add_to_wardrobe_eq Cons.IH up) (simp add: algebra_simps)
qed

lemma sequential_ids_Nil: "sequential_ids []"
  by (simp add: sequential_ids_def)

lemma sequential_ids_snoc:
  "sequential_ids w \<Longrightarrow> id_key x = int (length w) + 1 \<Longrightarrow> sequential_ids (w @ [x])"
  by (simp add: sequential_ids_def upto_rec2)

lemma map_id_key_dump: "length cs = length ks \<Longrightarrow> map id_key (map2 model_dump cs ks) = ks"
  by (induction cs ks rule: list_induct2) (simp_all add: model_dump_def)


section \<open>Facts about looking an id up\<close>

lemma str_int_chars: "c \<in> set (str_int k) \<Longrightarrow> c \<in> set ''-0123456789''"
proof -
  assume c: "c \<in> set (str_int k)"
  have sub: "\<And>n. c \<in> set (digits n) \<Longrightarrow> c \<in> set ''-0123456789''"
  proof -
    fix n assume "c \<in> set (digits n)"
    then have "c \<in> set ''0123456789''" by (rule digits_is_digit)
    then show "c \<in> set ''-0123456789''" by (simp only: set_simps insert_iff) blast
  qed
  show ?thesis
  proof (cases "k < 0")
    case True
    with c have "c = CHR ''-'' \<or> c \<in> set (digits (nat (- k)))" by (simp add: str_int_def)
    then show ?thesis using sub by (elim disjE) simp_all
  next
    case False
    with c have "c \<in> set (digits (nat k))" by (simp add: str_int_def)
    then show ?thesis by (rule sub)
  qed
qed

lemma str_int_not_01: "str_int k \<noteq> ''01''"
proof
  assume eq: "str_int k = ''01''"
  show False
  proof (cases "k < 0")
    case True
    with eq show False by (simp add: str_int_def)
  next
    case False
    with eq have d: "digits (nat k) = ''01''" by (simp add: str_int_def)
    then have "hd (digits (nat k)) = CHR ''0''" by simp
    then have "nat k = 0" by (rule digits_hd_zero)
    with d have "digits 0 = ''01''" by simp
    then show False by (simp add: digits.simps [of 0] digit_char_def)
  qed
qed

lemma str_int_not_1_space: "str_int k \<noteq> ''1 ''"
proof
  assume "str_int k = ''1 ''"
  then have "CHR '' '' \<in> set (str_int k)" by simp
  then have "CHR '' '' \<in> set ''-0123456789''" by (rule str_int_chars)
  then show False by simp
qed

lemma str_int_not_1_dot_0: "str_int k \<noteq> ''1.0''"
proof
  assume "str_int k = ''1.0''"
  then have "CHR ''.'' \<in> set (str_int k)" by simp
  then have "CHR ''.'' \<in> set ''-0123456789''" by (rule str_int_chars)
  then show False by simp
qed

lemma scan_Some: "scan w key = Some item \<Longrightarrow> item \<in> set w \<and> str_int (id_key item) = key"
  by (induction w) (auto split: if_splits)

lemma scan_None: "(scan w key = None) = (key \<notin> (\<lambda>item. str_int (id_key item)) ` set w)"
  by (induction w) auto

lemma scan_find: "scan w key = find (\<lambda>item. str_int (id_key item) = key) w"
  by (induction w) simp_all

lemma scan_from:
  "map id_key w = [a .. a + int (length w) - 1] \<Longrightarrow>
   scan w (str_int k) = (if a \<le> k \<and> k < a + int (length w) then Some (w ! nat (k - a)) else None)"
proof (induction w arbitrary: a)
  case Nil
  show ?case by simp
next
  case (Cons x xs)
  have up: "[a .. a + int (length (x # xs)) - 1] = a # [a + 1 .. a + 1 + int (length xs) - 1]"
    by (simp add: upto_rec1 [of a])
  from Cons.prems up have hd: "id_key x = a" and tl: "map id_key xs = [a + 1 .. a + 1 + int (length xs) - 1]"
    by simp_all
  note IH = Cons.IH [OF tl]
  show ?case
  proof (cases "k = a")
    case True
    with hd show ?thesis by simp
  next
    case False
    then have ne: "str_int a \<noteq> str_int k" using str_int_inj by blast
    have idx: "a < k \<Longrightarrow> nat (k - a) = Suc (nat (k - (a + 1)))" by simp
    from False ne hd show ?thesis
      by (auto simp add: IH idx)
  qed
qed

lemma scan_sequential:
  "sequential_ids w \<Longrightarrow>
   scan w (str_int k) = (if 1 \<le> k \<and> k \<le> int (length w) then Some (w ! nat (k - 1)) else None)"
  using scan_from [of w 1 k] by (simp add: sequential_ids_def)

lemma nth_sequential:
  "sequential_ids w \<Longrightarrow> 1 \<le> k \<Longrightarrow> k \<le> int (length w) \<Longrightarrow> id_key (w ! nat (k - 1)) = k"
proof -
  assume seq: "sequential_ids w" and k: "1 \<le> k" "k \<le> int (length w)"
  then have lt: "nat (k - 1) < length w" by simp
  have "id_key (w ! nat (k - 1)) = map id_key w ! nat (k - 1)" using lt by simp
  also have "\<dots> = [1 .. int (length w)] ! nat (k - 1)" using seq by (simp add: sequential_ids_def)
  also have "\<dots> = 1 + int (nat (k - 1))" using k by (intro nth_upto) simp
  finally show ?thesis using k by simp
qed

lemma ids_of_sequential:
  "sequential_ids w \<Longrightarrow> (\<lambda>item. str_int (id_key item)) ` set w = str_int ` {1 .. int (length w)}"
proof -
  assume "sequential_ids w"
  then have "id_key ` set w = {1 .. int (length w)}"
    by (metis sequential_ids_def list.set_map set_upto)
  then show ?thesis by (metis image_image)
qed

lemma two_items_eq:
  "two_items = \<lparr>wardrobe = [model_dump tshirt 1, model_dump jeans 2], invoked = [], page = []\<rparr>"
  by (simp add: two_items_def init_def add_to_wardrobe_def Let_def)

lemma sequential_two_items: "sequential_ids (wardrobe two_items)"
  by (simp add: two_items_eq sequential_ids_def model_dump_def upto_rec1)

section \<open>Facts about the session and the page\<close>

lemma wardrobe_st: "wardrobe (st w s) = wardrobe s"
  by (simp add: st_def)

lemma invoked_st: "invoked (st w s) = invoked s"
  by (simp add: st_def)

lemma page_st: "page (st w s) = page s @ [w]"
  by (simp add: st_def)

lemma wardrobe_analyze:
  "wardrobe (snd (analyze_clothing_image structured_llm image_bytes s)) = wardrobe s"
  by (simp add: analyze_clothing_image_def Let_def wardrobe_st split: outcome.split)

lemma wardrobe_recommend:
  "wardrobe (snd (get_outfit_recommendations llm prefs n s)) = wardrobe s"
  by (simp add: get_outfit_recommendations_def Let_def wardrobe_st split: outcome.split)

lemma display_items_eq:
  "display_items ids s =
     s\<lparr>page := page s @
          concat (map (\<lambda>i. case scan (wardrobe s) i of
                               None \<Rightarrow> [] | Some item \<Rightarrow> [item_expander i item]) ids)\<rparr>"
proof (induction ids arbitrary: s)
  case Nil
  show ?case by simp
next
  case (Cons i ids)
  show ?case
  proof (cases "scan (wardrobe s) i")
    case None
    then show ?thesis by (simp add: get_item_by_id_def Cons.IH)
  next
    case (Some item)
    then show ?thesis by (simp add: get_item_by_id_def Cons.IH st_def)
  qed
qed

lemma display_tips_eq:
  "display_tips tips s = s\<lparr>page := page s @ map (\<lambda>tip. Write (glyph_tip @ '' '' @ tip)) tips\<rparr>"
  by (induction tips arbitrary: s) (simp_all add: st_def)

lemma display_eq:
  "display_outfit_recommendation recommendation s =
     s\<lparr>page := page s
         @ [Subheader (glyph_subheader @ '' Recommended Outfit''), Write ''**Outfit Items:**'']
         @ concat (map (\<lambda>i. case scan (wardrobe s) i of
                               None \<Rightarrow> [] | Some item \<Rightarrow> [item_expander i item])
                     (recommended_items recommendation))
         @ [Write ''**Why this outfit works:**'', Write (reasoning recommendation)]
         @ (if style_tips recommendation = [] then []
            else Write ''**Styling Tips:**''
                   # map (\<lambda>tip. Write (glyph_tip @ '' '' @ tip)) (style_tips recommendation))\<rparr>"
  by (simp add: display_outfit_recommendation_def Let_def display_items_eq display_tips_eq st_def)

lemma concat_found_filter:
  "concat (map (\<lambda>i. case f i of None \<Rightarrow> [] | Some item \<Rightarrow> [g i item])
             (filter (\<lambda>i. \<exists>item. f i = Some item) ids))
     = concat (map (\<lambda>i. case f i of None \<Rightarrow> [] | Some item \<Rightarrow> [g i item]) ids)"
  by (induction ids) (auto split: option.splits)

lemma wardrobe_display:
  "wardrobe (display_outfit_recommendation recommendation s) = wardrobe s"
  by (simp add: display_eq)

lemma main_list_items_eq:
  "main_list_items items s = s\<lparr>page := page s @ map wardrobe_expander items\<rparr>"
  by (induction items arbitrary: s) (simp_all add: st_def)

lemma wardrobe_main_list: "wardrobe (main_list s) = wardrobe s"
  by (simp add: main_list_def main_list_items_eq wardrobe_st)

lemma wardrobe_main_export: "wardrobe (main_export s) = wardrobe s"
  by (simp add: main_export_def Let_def st_def)

lemma sequential_ids_distinct: "sequential_ids w \<Longrightarrow> distinct (map id_key w)"
  by (simp add: sequential_ids_def)

lemma sorted_wrt_upto: "sorted_wrt (<) [i .. j]"
  by (metis distinct_upto sorted_upto strict_sorted_iff)

lemma sequential_ids_increasing: "sequential_ids w \<Longrightarrow> sorted_wrt (<) (map id_key w)"
  by (simp add: sequential_ids_def sorted_wrt_upto)

section \<open>\<open>json.loads\<close> reads what \<open>json.dumps\<close> wrote\<close>

lemma byte_less: "byte s i < 256"
  by (simp add: byte_def)

lemma char_of_byte: "i < length s \<Longrightarrow> char_of (byte s i) = s ! i"
  by (simp add: byte_def)

lemma cont_length: "cont (byte s i) \<Longrightarrow> i < length s"
  by (cases "i < length s") (simp_all add: byte_def cont_def)

lemma take_1: "0 < length s \<Longrightarrow> take (Suc 0) s = [s ! 0]"
  using take_Suc_conv_app_nth [of 0 s] by simp

lemma take_2: "1 < length s \<Longrightarrow> take 2 s = [s ! 0, s ! 1]"
proof -
  assume l: "1 < length s"
  have "take (Suc (Suc 0)) s = take (Suc 0) s @ [s ! Suc 0]"
    using l by (intro take_Suc_conv_app_nth) simp
  moreover have "take (Suc 0) s = [s ! 0]" using l by (intro take_1) auto
  ultimately show ?thesis by (simp add: numeral_2_eq_2)
qed

lemma take_3: "2 < length s \<Longrightarrow> take 3 s = [s ! 0, s ! 1, s ! 2]"
proof -
  assume l: "2 < length s"
  have "take (Suc 2) s = take 2 s @ [s ! 2]"
    using l by (intro take_Suc_conv_app_nth)
  then show ?thesis using l take_2 [of s] by (simp add: numeral_3_eq_3 numeral_2_eq_2)
qed

lemma take_4: "3 < length s \<Longrightarrow> take 4 s = [s ! 0, s ! 1, s ! 2, s ! 3]"
proof -
  assume l: "3 < length s"
  have "take (Suc 3) s = take 3 s @ [s ! 3]"
    using l by (intro take_Suc_conv_app_nth)
  moreover have "Suc 3 = 4" by simp
  ultimately show ?thesis using l take_3 [of s] by simp
qed

lemma sextet: "y < 64 \<Longrightarrow> (x * 64 + y) div 64 = x \<and> (x * 64 + y) mod 64 = (y::nat)"
  by simp

lemma utf8_encode_head:
  assumes "s \<noteq> []"
  shows "utf8_encode (fst (utf8_head s)) = Some (take (snd (utf8_head s)) s)
         \<and> 1 \<le> snd (utf8_head s) \<and> snd (utf8_head s) \<le> length s"
proof -
  let ?a = "byte s 0" and ?b = "byte s 1" and ?c = "byte s 2" and ?d = "byte s 3"
  let ?n2 = "(?a - 192) * 64 + (?b - 128)"
  let ?n3 = "((?a - 224) * 64 + (?b - 128)) * 64 + (?c - 128)"
  let ?n4 = "(((?a - 240) * 64 + (?b - 128)) * 64 + (?c - 128)) * 64 + (?d - 128)"
  from assms have l0: "0 < length s" by simp
  from assms have l1: "Suc 0 \<le> length s" by (cases s) simp_all
  have a: "?a < 256" by (rule byte_less)
  have c0: "char_of ?a = s ! 0" using l0 by (rule char_of_byte)
  consider (one) "?a < 128"
    | (two) "\<not> ?a < 128" "194 \<le> ?a \<and> ?a < 224 \<and> cont ?b"
    | (three) "\<not> ?a < 128" "\<not> (194 \<le> ?a \<and> ?a < 224 \<and> cont ?b)"
        "224 \<le> ?a \<and> ?a < 240 \<and> cont ?b \<and> cont ?c \<and> 2048 \<le> ?n3
           \<and> \<not> (55296 \<le> ?n3 \<and> ?n3 < 57344)"
    | (four) "\<not> ?a < 128" "\<not> (194 \<le> ?a \<and> ?a < 224 \<and> cont ?b)"
        "\<not> (224 \<le> ?a \<and> ?a < 240 \<and> cont ?b \<and> cont ?c \<and> 2048 \<le> ?n3
           \<and> \<not> (55296 \<le> ?n3 \<and> ?n3 < 57344))"
        "240 \<le> ?a \<and> ?a < 245 \<and> cont ?b \<and> cont ?c \<and> cont ?d \<and> 65536 \<le> ?n4 \<and> ?n4 < 1114112"
    | (junk) "\<not> ?a < 128" "\<not> (194 \<le> ?a \<and> ?a < 224 \<and> cont ?b)"
        "\<not> (224 \<le> ?a \<and> ?a < 240 \<and> cont ?b \<and> cont ?c \<and> 2048 \<le> ?n3
           \<and> \<not> (55296 \<le> ?n3 \<and> ?n3 < 57344))"
        "\<not> (240 \<le> ?a \<and> ?a < 245 \<and> cont ?b \<and> cont ?c \<and> cont ?d \<and> 65536 \<le> ?n4 \<and> ?n4 < 1114112)"
    by blast
  then show ?thesis
  proof cases
    case one
    then have h: "utf8_head s = (?a, Suc 0)" by (simp add: utf8_head_def Let_def)
    have t: "take (Suc 0) s = [s ! 0]" using l0 by (rule take_1)
    show ?thesis using one l0 l1 by (simp add: h utf8_encode_def t char_of_byte)
  next
    case two
    then have h: "utf8_head s = (?n2, 2)" by (simp add: utf8_head_def Let_def)
    from two have l: "1 < length s" using cont_length [of s 1] by simp
    define x y where "x = ?a - 192" and "y = ?b - 128"
    from two have y: "y < 64" and x: "2 \<le> x" "x < 32" by (auto simp add: cont_def x_def y_def)
    from two have ab: "?a = 192 + x" "?b = 128 + y" by (auto simp add: cont_def x_def y_def)
    have n: "128 \<le> x * 64 + y" "x * 64 + y < 2048" using x y by simp_all
    have "utf8_encode (x * 64 + y) = Some [char_of (192 + x), char_of (128 + y)]"
      using n sextet [OF y, of x] by (simp add: utf8_encode_def)
    then have "utf8_encode ?n2 = Some [char_of ?a, char_of ?b]"
      by (simp only: ab [symmetric] x_def [symmetric] y_def [symmetric])
    then show ?thesis using l by (simp add: h take_2 char_of_byte c0)
  next
    case three
    then have h: "utf8_head s = (?n3, 3)" by (simp add: utf8_head_def Let_def)
    from three have l: "2 < length s" using cont_length [of s 2] by simp
    define x y z where "x = ?a - 224" and "y = ?b - 128" and "z = ?c - 128"
    from three have y: "y < 64" and z: "z < 64" and x: "x < 16"
      by (auto simp add: cont_def x_def y_def z_def)
    from three have ab: "?a = 224 + x" "?b = 128 + y" "?c = 128 + z"
      by (auto simp add: cont_def x_def y_def z_def)
    from three have n: "2048 \<le> (x * 64 + y) * 64 + z"
      "\<not> (55296 \<le> (x * 64 + y) * 64 + z \<and> (x * 64 + y) * 64 + z < 57344)"
      by (auto simp add: x_def y_def z_def)
    define m where "m = (x * 64 + y) * 64 + z"
    have m: "2048 \<le> m" "\<not> (55296 \<le> m \<and> m < 57344)" "m < 65536"
      using n x y z by (simp_all add: m_def)
    have m1: "\<not> m < 128" "\<not> m < 2048" "\<not> (56448 \<le> m \<and> m < 56576)"
      using m by arith+
    have d: "m div 64 div 64 = x" "m div 64 mod 64 = y" "m mod 64 = z"
      using sextet [OF z, of "x * 64 + y"] sextet [OF y, of x] by (simp_all add: m_def)
    have "utf8_encode m = Some [char_of (224 + x), char_of (128 + y), char_of (128 + z)]"
      by (simp only: utf8_encode_def m m1 d if_False if_True simp_thms)
    then have "utf8_encode ((x * 64 + y) * 64 + z)
        = Some [char_of (224 + x), char_of (128 + y), char_of (128 + z)]"
      by (simp only: m_def)
    then have "utf8_encode ?n3 = Some [char_of ?a, char_of ?b, char_of ?c]"
      by (simp only: ab [symmetric] x_def [symmetric] y_def [symmetric] z_def [symmetric])
    then show ?thesis using l by (simp add: h take_3 char_of_byte c0)
  next
    case four
    then have h: "utf8_head s = (?n4, 4)" by (simp add: utf8_head_def Let_def)
    from four have l: "3 < length s" using cont_length [of s 3] by simp
    define x y z w where "x = ?a - 240" and "y = ?b - 128" and "z = ?c - 128" and "w = ?d - 128"
    from four have y: "y < 64" and z: "z < 64" and w: "w < 64" and x: "x < 5"
      by (auto simp add: cont_def x_def y_def z_def w_def)
    from four have ab: "?a = 240 + x" "?b = 128 + y" "?c = 128 + z" "?d = 128 + w"
      by (auto simp add: cont_def x_def y_def z_def w_def)
    from four have n: "65536 \<le> ((x * 64 + y) * 64 + z) * 64 + w"
      "((x * 64 + y) * 64 + z) * 64 + w < 1114112"
      by (auto simp add: x_def y_def z_def w_def)
    define m where "m = ((x * 64 + y) * 64 + z) * 64 + w"
    have m: "65536 \<le> m" "m < 1114112" using n by (simp_all add: m_def)
    have m1: "\<not> m < 128" "\<not> m < 2048" "\<not> (56448 \<le> m \<and> m < 56576)"
      "\<not> (55296 \<le> m \<and> m < 57344)" "\<not> m < 65536"
      using m by arith+
    have d: "m div 64 div 64 div 64 = x" "m div 64 div 64 mod 64 = y" "m div 64 mod 64 = z"
      "m mod 64 = w"
      using sextet [OF w, of "(x * 64 + y) * 64 + z"] sextet [OF z, of "x * 64 + y"]
        sextet [OF y, of x]
      by (simp_all add: m_def)
    have "utf8_encode m
        = Some [char_of (240 + x), char_of (128 + y), char_of (128 + z), char_of (128 + w)]"
      by (simp only: utf8_encode_def m m1 d if_False if_True simp_thms)
    then have "utf8_encode (((x * 64 + y) * 64 + z) * 64 + w)
        = Some [char_of (240 + x), char_of (128 + y), char_of (128 + z), char_of (128 + w)]"
      by (simp only: m_def)
    then have "utf8_encode ?n4 = Some [char_of ?a, char_of ?b, char_of ?c, char_of ?d]"
      by (simp only: ab [symmetric] x_def [symmetric] y_def [symmetric] z_def [symmetric]
          w_def [symmetric])
    then show ?thesis using l by (simp add: h take_4 char_of_byte c0)
  next
    case junk
    then have h: "utf8_head s = (56320 + ?a, Suc 0)" by (simp add: utf8_head_def Let_def)
    have t: "take (Suc 0) s = [s ! 0]" using l0 by (rule take_1)
    from junk a have r: "128 \<le> ?a" "?a < 256" by simp_all
    have "utf8_encode (56320 + ?a) = Some [char_of ?a]"
      using r by (simp add: utf8_encode_def)
    then show ?thesis using l0 l1 by (simp add: h t char_of_byte)
  qed
qed

lemma hex_char_code:
  "d < 16 \<Longrightarrow> (of_char (hex_char d) :: nat) = (if d < 10 then 48 + d else 87 + d)"
proof -
  assume "d < 16"
  then have "d = 0 \<or> d = 1 \<or> d = 2 \<or> d = 3 \<or> d = 4 \<or> d = 5 \<or> d = 6 \<or> d = 7 \<or> d = 8
      \<or> d = 9 \<or> d = 10 \<or> d = 11 \<or> d = 12 \<or> d = 13 \<or> d = 14 \<or> d = 15"
    by arith
  then show ?thesis by (elim disjE) (simp_all add: hex_char_def)
qed

lemma hex_val_hex_char: "d < 16 \<Longrightarrow> hex_val (hex_char d) = Some d"
  by (simp add: hex_val_def hex_char_code Let_def)

lemma nibbles:
  "((n div 16 div 16 div 16 * 16 + n div 16 div 16 mod 16) * 16 + n div 16 mod 16) * 16
     + n mod 16 = (n::nat)"
  by (simp add: div_mult_mod_eq)

lemma hex4_hex4_digits:
  assumes "n < 65536"
  shows "\<exists>a b c d. hex4_digits n = [a, b, c, d] \<and> hex4 a b c d = Some n"
proof -
  from assms have top: "n div 16 div 16 div 16 < 16" by (simp add: div_mult2_eq [symmetric])
  have v: "hex_val (hex_char (n div 16 div 16 div 16)) = Some (n div 16 div 16 div 16)"
    "hex_val (hex_char (n div 16 div 16 mod 16)) = Some (n div 16 div 16 mod 16)"
    "hex_val (hex_char (n div 16 mod 16)) = Some (n div 16 mod 16)"
    "hex_val (hex_char (n mod 16)) = Some (n mod 16)"
    using top by (simp_all add: hex_val_hex_char)
  show ?thesis
    by (simp add: hex4_digits_def hex4_def v nibbles)
qed

lemma char_of_eq: "n < 256 \<Longrightarrow> (char_of n = c) = (n = (of_char c :: nat))"
  by (metis char_of_char of_char_of mod_less)

lemma scanstring_unescape:
  "e \<noteq> CHR ''u'' \<Longrightarrow> unescape e = Some ch \<Longrightarrow>
   scanstring (CHR 0x5C # e # t) = prepend (Some [ch]) (scanstring t)"
  by simp

lemma scanstring_plain:
  "c \<noteq> CHR 0x22 \<Longrightarrow> c \<noteq> CHR 0x5C \<Longrightarrow> 32 \<le> (of_char c :: nat) \<Longrightarrow>
   scanstring (c # t) = prepend (Some [c]) (scanstring t)"
  by simp

lemma scanstring_unicode:
  "unicode_escape es = Some (n, k) \<Longrightarrow>
   scanstring (CHR 0x5C # CHR ''u'' # es) = prepend (utf8_encode n) (scanstring (drop k es))"
  by simp

lemma unicode_escape_single:
  assumes "n < 65536" and "\<not> (55296 \<le> n \<and> n < 56320)"
  shows "unicode_escape (hex4_digits n @ t) = Some (n, 4)"
proof -
  obtain a b c d where "hex4_digits n = [a, b, c, d]" and "hex4 a b c d = Some n"
    using hex4_hex4_digits [OF assms(1)] by blast
  then show ?thesis using assms(2) by (auto simp add: unicode_escape_def)
qed

lemma unicode_escape_pair:
  assumes "55296 \<le> h" "h < 56320" "56320 \<le> l" "l < 57344"
  shows "unicode_escape (hex4_digits h @ CHR 0x5C # CHR ''u'' # hex4_digits l @ t)
           = Some (65536 + ((h - 55296) * 1024 + (l - 56320)), 10)"
proof -
  obtain a b c d where h: "hex4_digits h = [a, b, c, d]" "hex4 a b c d = Some h"
    using hex4_hex4_digits [of h] assms by auto
  obtain a2 b2 c2 d2 where l: "hex4_digits l = [a2, b2, c2, d2]" "hex4 a2 b2 c2 d2 = Some l"
    using hex4_hex4_digits [of l] assms by auto
  show ?thesis using assms by (simp add: unicode_escape_def h l)
qed

lemma length_hex4_digits: "length (hex4_digits n) = 4"
  by (simp add: hex4_digits_def)

lemma scanstring_escape_code_point:
  assumes enc: "utf8_encode n = Some bs"
  shows "scanstring (escape_code_point n @ t) = prepend (Some bs) (scanstring t)"
proof -
  consider (quote) "n = 34" | (backslash) "n = 92" | (n) "n = 10" | (r) "n = 13" | (t) "n = 9"
    | (b) "n = 8" | (f) "n = 12"
    | (plain) "n \<noteq> 34" "n \<noteq> 92" "32 \<le> n \<and> n \<le> 126"
    | (single) "n \<noteq> 34" "n \<noteq> 92" "n \<noteq> 10" "n \<noteq> 13" "n \<noteq> 9" "n \<noteq> 8" "n \<noteq> 12"
        "\<not> (32 \<le> n \<and> n \<le> 126)" "n < 65536"
    | (pair) "\<not> n < 65536"
    by linarith
  then show ?thesis
  proof cases
    case quote
    have "scanstring (CHR 0x5C # CHR 0x22 # t) = prepend (Some [CHR 0x22]) (scanstring t)"
      by (rule scanstring_unescape) (simp_all add: unescape_def)
    moreover have "bs = [CHR 0x22]"
    proof -
      have "char_of (34::nat) = CHR 0x22" by (simp add: char_of_eq)
      then show ?thesis using enc quote by (simp add: utf8_encode_def)
    qed
    ultimately show ?thesis using quote by (simp add: escape_code_point_def del: scanstring.simps)
  next
    case backslash
    have "scanstring (CHR 0x5C # CHR 0x5C # t) = prepend (Some [CHR 0x5C]) (scanstring t)"
      by (rule scanstring_unescape) (simp_all add: unescape_def)
    moreover have "bs = [CHR 0x5C]"
    proof -
      have "char_of (92::nat) = CHR 0x5C" by (simp add: char_of_eq)
      then show ?thesis using enc backslash by (simp add: utf8_encode_def)
    qed
    ultimately show ?thesis using backslash
      by (simp add: escape_code_point_def del: scanstring.simps)
  next
    case n
    have "scanstring (CHR 0x5C # CHR ''n'' # t) = prepend (Some [CHR 0x0A]) (scanstring t)"
      by (rule scanstring_unescape) (simp_all add: unescape_def)
    moreover have "bs = [CHR 0x0A]"
    proof -
      have "char_of (10::nat) = CHR 0x0A" by (simp add: char_of_eq)
      then show ?thesis using enc n by (simp add: utf8_encode_def)
    qed
    ultimately show ?thesis using n by (simp add: escape_code_point_def del: scanstring.simps)
  next
    case r
    have "scanstring (CHR 0x5C # CHR ''r'' # t) = prepend (Some [CHR 0x0D]) (scanstring t)"
      by (rule scanstring_unescape) (simp_all add: unescape_def)
    moreover have "bs = [CHR 0x0D]"
    proof -
      have "char_of (13::nat) = CHR 0x0D" by (simp add: char_of_eq)
      then show ?thesis using enc r by (simp add: utf8_encode_def)
    qed
    ultimately show ?thesis using r by (simp add: escape_code_point_def del: scanstring.simps)
  next
    case t
    have "scanstring (CHR 0x5C # CHR ''t'' # t) = prepend (Some [CHR 0x09]) (scanstring t)"
      by (rule scanstring_unescape) (simp_all add: unescape_def)
    moreover have "bs = [CHR 0x09]"
    proof -
      have "char_of (9::nat) = CHR 0x09" by (simp add: char_of_eq)
      then show ?thesis using enc t by (simp add: utf8_encode_def)
    qed
    ultimately show ?thesis using t by (simp add: escape_code_point_def del: scanstring.simps)
  next
    case b
    have "scanstring (CHR 0x5C # CHR ''b'' # t) = prepend (Some [CHR 0x08]) (scanstring t)"
      by (rule scanstring_unescape) (simp_all add: unescape_def)
    moreover have "bs = [CHR 0x08]"
    proof -
      have "char_of (8::nat) = CHR 0x08" by (simp add: char_of_eq)
      then show ?thesis using enc b by (simp add: utf8_encode_def)
    qed
    ultimately show ?thesis using b by (simp add: escape_code_point_def del: scanstring.simps)
  next
    case f
    have "scanstring (CHR 0x5C # CHR ''f'' # t) = prepend (Some [CHR 0x0C]) (scanstring t)"
      by (rule scanstring_unescape) (simp_all add: unescape_def)
    moreover have "bs = [CHR 0x0C]"
    proof -
      have "char_of (12::nat) = CHR 0x0C" by (simp add: char_of_eq)
      then show ?thesis using enc f by (simp add: utf8_encode_def)
    qed
    ultimately show ?thesis using f by (simp add: escape_code_point_def del: scanstring.simps)
  next
    case plain
    then have lt: "n < 256" by simp
    have code: "(of_char (char_of n) :: nat) = n" using lt by simp
    have esc: "escape_code_point n = [char_of n]"
      using plain by (simp add: escape_code_point_def)
    have bs: "bs = [char_of n]" using enc plain by (simp add: utf8_encode_def)
    have "char_of n \<noteq> CHR 0x22" "char_of n \<noteq> CHR 0x5C"
      using plain lt by (simp_all add: char_of_eq)
    then have "scanstring (char_of n # t) = prepend (Some [char_of n]) (scanstring t)"
      using plain by (intro scanstring_plain) (simp_all add: code)
    then show ?thesis by (simp add: esc bs del: scanstring.simps)
  next
    case single
    from enc have "\<not> (55296 \<le> n \<and> n < 56320)"
      by (auto simp add: utf8_encode_def split: if_splits)
    then have "unicode_escape (hex4_digits n @ t) = Some (n, 4)"
      using single by (intro unicode_escape_single) simp_all
    then have "scanstring (CHR 0x5C # CHR ''u'' # hex4_digits n @ t)
        = prepend (utf8_encode n) (scanstring (drop 4 (hex4_digits n @ t)))"
      by (rule scanstring_unicode)
    moreover have "escape_code_point n = CHR 0x5C # CHR ''u'' # hex4_digits n"
      using single by (simp add: escape_code_point_def)
    ultimately show ?thesis
      by (simp add: enc length_hex4_digits del: scanstring.simps)
  next
    case pair
    from enc pair have lt: "n < 1114112"
      by (auto simp add: utf8_encode_def split: if_splits)
    define m where "m = n - 65536"
    define h l where "h = 55296 + m div 1024" and "l = 56320 + m mod 1024"
    from pair lt have m: "m < 1048576" "n = 65536 + m" by (simp_all add: m_def)
    have h: "55296 \<le> h" "h < 56320" using m by (simp_all add: h_def)
    have l: "56320 \<le> l" "l < 57344" by (simp_all add: l_def)
    have join: "65536 + ((h - 55296) * 1024 + (l - 56320)) = n"
      using m by (simp add: h_def l_def)
    let ?rest = "hex4_digits h @ CHR 0x5C # CHR ''u'' # hex4_digits l @ t"
    have "unicode_escape ?rest = Some (n, 10)"
      using unicode_escape_pair [OF h l, of t] by (simp only: join)
    then have "scanstring (CHR 0x5C # CHR ''u'' # ?rest)
        = prepend (utf8_encode n) (scanstring (drop 10 ?rest))"
      by (rule scanstring_unicode)
    moreover have "escape_code_point n
        = CHR 0x5C # CHR ''u'' # hex4_digits h @ CHR 0x5C # CHR ''u'' # hex4_digits l"
      using pair by (simp add: escape_code_point_def h_def l_def m_def)
    ultimately show ?thesis
      by (simp add: enc length_hex4_digits del: scanstring.simps)
  qed
qed

lemma scanstring_escape: "scanstring (escape s @ CHR 0x22 # rest) = Some (s, rest)"
proof (induction s rule: code_points.induct)
  case 1
  show ?case by (simp add: escape_def)
next
  case (2 a s)
  let ?n = "fst (utf8_head (a # s))" and ?k = "snd (utf8_head (a # s))"
  from utf8_encode_head [of "a # s"]
  have enc: "utf8_encode ?n = Some (take ?k (a # s))" and k: "1 \<le> ?k" by simp_all
  have tail: "drop (?k - 1) s = drop ?k (a # s)"
    using k by (cases ?k) simp_all
  have "escape (a # s) = escape_code_point ?n @ escape (drop (?k - 1) s)"
    by (simp add: escape_def)
  then have "scanstring (escape (a # s) @ CHR 0x22 # rest)
      = scanstring (escape_code_point ?n @ (escape (drop (?k - 1) s) @ CHR 0x22 # rest))"
    by simp
  also have "\<dots> = prepend (Some (take ?k (a # s)))
      (scanstring (escape (drop (?k - 1) s) @ CHR 0x22 # rest))"
    by (rule scanstring_escape_code_point [OF enc])
  also have "\<dots> = Some (take ?k (a # s) @ drop (?k - 1) s, rest)"
    by (simp only: "2.IH" prepend_def option.simps prod.case)
  also have "\<dots> = Some (a # s, rest)"
    by (simp only: tail append_take_drop_id)
  finally show ?case .
qed

lemma is_digit_digit_char: "d < 10 \<Longrightarrow> is_digit (digit_char d)"
  by (simp add: is_digit_def digit_char_code)

lemma digits_all_digit: "c \<in> set (digits n) \<Longrightarrow> is_digit c"
proof (induction n rule: digits.induct)
  case (1 n)
  show ?case
  proof (cases "n < 10")
    case True
    with "1.prems" show ?thesis by (simp add: digits.simps [of n] is_digit_digit_char)
  next
    case False
    with "1.prems" "1.IH" show ?thesis
      by (auto simp add: digits.simps [of n] is_digit_digit_char)
  qed
qed

lemma nat_of_digits_snoc:
  "nat_of_digits (ds @ [c]) = 10 * nat_of_digits ds + ((of_char c :: nat) - 48)"
  by (simp add: nat_of_digits_def)

lemma nat_of_digits_digits: "nat_of_digits (digits n) = n"
proof (induction n rule: digits.induct)
  case (1 n)
  show ?case
  proof (cases "n < 10")
    case True
    then show ?thesis by (simp add: digits.simps [of n] nat_of_digits_def digit_char_code)
  next
    case False
    then have "nat_of_digits (digits n) = 10 * nat_of_digits (digits (n div 10)) + n mod 10"
      by (simp add: digits.simps [of n] nat_of_digits_snoc digit_char_code)
    with False "1.IH" show ?thesis by simp
  qed
qed

lemma takeWhile_digits:
  "number_ends rest \<Longrightarrow> takeWhile is_digit (digits n @ rest) = digits n"
proof -
  assume "number_ends rest"
  then have "takeWhile is_digit rest = []"
    by (cases rest) (simp_all add: number_ends_def)
  moreover have "takeWhile is_digit (digits n @ rest) = digits n @ takeWhile is_digit rest"
    by (rule takeWhile_append2) (rule digits_all_digit)
  ultimately show ?thesis by simp
qed

lemma hd_digits_is_digit: "is_digit (hd (digits n))"
  using digits_nonempty [of n] by (intro digits_all_digit [of _ n]) simp

lemma is_digit_not_minus: "is_digit c \<Longrightarrow> c \<noteq> CHR ''-''"
  by (auto simp: is_digit_def)

lemma digits_zero: "digits 0 = ''0''"
  by (simp add: digits.simps digit_char_def)

lemma scan_digits:
  "number_ends rest \<Longrightarrow>
   (if digits n @ rest \<noteq> [] \<and> hd (digits n @ rest) = CHR ''0'' then ''0''
    else takeWhile is_digit (digits n @ rest)) = digits n"
proof -
  assume ends: "number_ends rest"
  have hd: "hd (digits n @ rest) = hd (digits n)" using digits_nonempty by simp
  show ?thesis
  proof (cases "hd (digits n) = CHR ''0''")
    case True
    then have "n = 0" by (rule digits_hd_zero)
    then show ?thesis using digits_zero by (simp add: hd)
  next
    case False
    with ends show ?thesis by (simp add: hd takeWhile_digits)
  qed
qed

lemma scan_int_unfold:
  "ds = (if s1 \<noteq> [] \<and> hd s1 = CHR ''0'' then ''0'' else takeWhile is_digit s1) \<Longrightarrow>
   s1 = (if s \<noteq> [] \<and> hd s = CHR ''-'' then tl s else s) \<Longrightarrow>
   scan_int s =
     (if ds = [] then None
      else if drop (length ds) s1 \<noteq> [] \<and> hd (drop (length ds) s1) \<in> set ''.eE'' then None
      else Some (if s \<noteq> [] \<and> hd s = CHR ''-'' then - int (nat_of_digits ds)
                 else int (nat_of_digits ds), drop (length ds) s1))"
  by (simp only: scan_int_def Let_def)

lemma scan_int_nat:
  assumes "number_ends rest"
  shows "scan_int (digits n @ rest) = Some (int n, rest)"
proof -
  have hd: "hd (digits n @ rest) = hd (digits n)" using digits_nonempty by simp
  have notneg: "\<not> (digits n @ rest \<noteq> [] \<and> hd (digits n @ rest) = CHR ''-'')"
    using hd_digits_is_digit [of n] is_digit_not_minus by (simp add: hd)
  have ends: "\<not> (rest \<noteq> [] \<and> hd rest \<in> set ''.eE'')"
    using assms by (cases rest) (simp_all add: number_ends_def)
  have s1: "digits n @ rest =
      (if digits n @ rest \<noteq> [] \<and> hd (digits n @ rest) = CHR ''-'' then tl (digits n @ rest)
       else digits n @ rest)"
    using notneg by (simp only: if_False)
  have "scan_int (digits n @ rest) =
     (if digits n = [] then None
      else if drop (length (digits n)) (digits n @ rest) \<noteq> []
            \<and> hd (drop (length (digits n)) (digits n @ rest)) \<in> set ''.eE'' then None
      else Some (if digits n @ rest \<noteq> [] \<and> hd (digits n @ rest) = CHR ''-''
                 then - int (nat_of_digits (digits n))
                 else int (nat_of_digits (digits n)), drop (length (digits n)) (digits n @ rest)))"
    by (rule scan_int_unfold [OF scan_digits [OF assms, symmetric] s1])
  also have "\<dots> = Some (int n, rest)"
    using ends notneg digits_nonempty [of n] by (simp add: nat_of_digits_digits del: set_simps)
  finally show ?thesis .
qed

lemma scan_int_neg:
  assumes "number_ends rest" and "0 < n"
  shows "scan_int (CHR ''-'' # digits n @ rest) = Some (- int n, rest)"
proof -
  let ?s = "CHR ''-'' # digits n @ rest"
  have ends: "\<not> (rest \<noteq> [] \<and> hd rest \<in> set ''.eE'')"
    using assms by (cases rest) (simp_all add: number_ends_def)
  have s1: "digits n @ rest = (if ?s \<noteq> [] \<and> hd ?s = CHR ''-'' then tl ?s else ?s)"
    by simp
  have "scan_int ?s =
     (if digits n = [] then None
      else if drop (length (digits n)) (digits n @ rest) \<noteq> []
            \<and> hd (drop (length (digits n)) (digits n @ rest)) \<in> set ''.eE'' then None
      else Some (if ?s \<noteq> [] \<and> hd ?s = CHR ''-''
                 then - int (nat_of_digits (digits n))
                 else int (nat_of_digits (digits n)), drop (length (digits n)) (digits n @ rest)))"
    by (rule scan_int_unfold [OF scan_digits [OF assms(1), symmetric] s1])
  also have "\<dots> = Some (- int n, rest)"
    using ends digits_nonempty [of n] by (simp add: nat_of_digits_digits del: set_simps)
  finally show ?thesis .
qed

lemma scan_int_str_int: "number_ends rest \<Longrightarrow> scan_int (str_int i @ rest) = Some (i, rest)"
proof (cases "i < 0")
  case True
  assume "number_ends rest"
  with True scan_int_neg [of rest "nat (- i)"] show ?thesis by (simp add: str_int_def)
next
  case False
  assume "number_ends rest"
  with False scan_int_nat [of rest "nat i"] show ?thesis by (simp add: str_int_def)
qed

lemma str_int_Cons: "\<exists>c cs. str_int i = c # cs \<and> (c = CHR ''-'' \<or> is_digit c)"
proof (cases "i < 0")
  case True
  then show ?thesis by (simp add: str_int_def)
next
  case False
  obtain c cs where eq: "digits (nat i) = c # cs"
    using digits_nonempty [of "nat i"] by (cases "digits (nat i)") auto
  then have "is_digit c" using hd_digits_is_digit [of "nat i"] by simp
  with False eq show ?thesis by (simp add: str_int_def)
qed

lemma number_start:
  "c = CHR ''-'' \<or> is_digit c \<Longrightarrow>
   c \<noteq> CHR 0x22 \<and> c \<noteq> CHR ''{'' \<and> c \<noteq> CHR ''['' \<and> c \<noteq> CHR ''n'' \<and> c \<noteq> CHR ''t''
   \<and> c \<noteq> CHR ''f'' \<and> c \<noteq> CHR '']'' \<and> \<not> is_ws c"
  by (auto simp: is_digit_def is_ws_def)

lemma parse_value_int:
  assumes "number_ends rest"
  shows "parse_value (Suc n) (str_int i @ rest) = Some (JInt i, rest)"
proof -
  obtain c cs where eq: "str_int i = c # cs" and c: "c = CHR ''-'' \<or> is_digit c"
    using str_int_Cons by blast
  have "scan_int ((c # cs) @ rest) = Some (i, rest)"
    using scan_int_str_int [OF assms, of i] eq by simp
  then show ?thesis using number_start [OF c] by (simp add: eq)
qed

lemma skip_ws_newline_indent: "skip_ws (newline_indent l @ s) = skip_ws s"
proof -
  have "\<And>c. c \<in> set (newline_indent l) \<Longrightarrow> is_ws c"
    by (auto simp: newline_indent_def is_ws_def)
  then show ?thesis unfolding skip_ws_def by (simp add: dropWhile_append2)
qed

lemma skip_ws_start: "\<not> is_ws c \<Longrightarrow> skip_ws (c # s) = c # s"
  by (simp add: skip_ws_def)

lemma skip_ws_space: "skip_ws (CHR '' '' # s) = skip_ws s"
  by (simp add: skip_ws_def is_ws_def)

lemma not_ws: "\<not> is_ws CHR ''['' \<and> \<not> is_ws CHR '']'' \<and> \<not> is_ws CHR ''{'' \<and> \<not> is_ws CHR ''}''
  \<and> \<not> is_ws CHR '','' \<and> \<not> is_ws CHR '':'' \<and> \<not> is_ws CHR 0x22
  \<and> \<not> is_ws CHR ''n'' \<and> \<not> is_ws CHR ''t'' \<and> \<not> is_ws CHR ''f''"
  by (simp add: is_ws_def)

lemma length_newline_indent: "length (newline_indent l) = Suc (2 * l)"
  by (simp add: newline_indent_def)

lemma number_ends_newline: "number_ends (newline_indent l @ s)"
  by (simp add: number_ends_def newline_indent_def is_digit_def)

lemma number_ends_comma: "number_ends (CHR '','' # s)"
  by (simp add: number_ends_def is_digit_def)

lemma number_ends_Nil: "number_ends []"
  by (simp add: number_ends_def)

lemma number_ends_list: "number_ends (iterencode_list l xs @ newline_indent l' @ s)"
  by (cases xs) (simp_all add: number_ends_newline number_ends_comma)

lemma number_ends_dict: "number_ends (iterencode_dict l kvs @ newline_indent l' @ s)"
proof (cases kvs)
  case Nil
  then show ?thesis by (simp add: number_ends_newline)
next
  case (Cons kv kvs')
  then show ?thesis by (cases kv) (simp add: number_ends_comma)
qed

lemma parse_value_string:
  "parse_value (Suc n) (encode_basestring_ascii t @ rest) = Some (JStr t, rest)"
  by (simp add: encode_basestring_ascii_def scanstring_escape)

lemma parse_value_null: "parse_value (Suc n) (''null'' @ rest) = Some (JNull, rest)"
  by simp

lemma parse_value_true: "parse_value (Suc n) (''true'' @ rest) = Some (JBool True, rest)"
  by simp

lemma parse_value_false: "parse_value (Suc n) (''false'' @ rest) = Some (JBool False, rest)"
  by simp

lemma parse_value_empty_array: "parse_value (Suc n) (''[]'' @ rest) = Some (JArr [], rest)"
  by (simp add: skip_ws_start not_ws)

lemma parse_value_empty_object: "parse_value (Suc n) (''{}'' @ rest) = Some (JObj [], rest)"
  by (simp add: skip_ws_start not_ws)

lemma parse_value_array:
  "skip_ws cs = d # ds \<Longrightarrow> d \<noteq> CHR '']'' \<Longrightarrow> parse_elements n (d # ds) = Some (vs, rest) \<Longrightarrow>
   parse_value (Suc n) (CHR ''['' # cs) = Some (JArr vs, rest)"
  by simp

lemma parse_value_object:
  "skip_ws cs = CHR 0x22 # ds \<Longrightarrow> parse_members n ds = Some (pairs, rest) \<Longrightarrow>
   parse_value (Suc n) (CHR ''{'' # cs) = Some (JObj (dict_of pairs), rest)"
  by simp

lemma parse_elements_last:
  "parse_value n s0 = Some (v0, s1) \<Longrightarrow> skip_ws s1 = CHR '']'' # rest \<Longrightarrow>
   parse_elements (Suc n) s0 = Some ([v0], rest)"
  by simp

lemma parse_elements_more:
  "parse_value n s0 = Some (v0, s1) \<Longrightarrow> skip_ws s1 = CHR '','' # cs \<Longrightarrow>
   parse_elements n (skip_ws cs) = Some (vs, rest) \<Longrightarrow>
   parse_elements (Suc n) s0 = Some (v0 # vs, rest)"
  by simp

lemma parse_members_last:
  "scanstring s0 = Some (k0, s1) \<Longrightarrow> skip_ws s1 = CHR '':'' # cs \<Longrightarrow>
   parse_value n (skip_ws cs) = Some (v0, s2) \<Longrightarrow> skip_ws s2 = CHR ''}'' # rest \<Longrightarrow>
   parse_members (Suc n) s0 = Some ([(k0, v0)], rest)"
  by simp

lemma parse_members_more:
  "scanstring s0 = Some (k0, s1) \<Longrightarrow> skip_ws s1 = CHR '':'' # cs \<Longrightarrow>
   parse_value n (skip_ws cs) = Some (v0, s2) \<Longrightarrow> skip_ws s2 = CHR '','' # es \<Longrightarrow>
   skip_ws es = CHR 0x22 # qs \<Longrightarrow> parse_members n qs = Some (pairs, rest) \<Longrightarrow>
   parse_members (Suc n) s0 = Some ((k0, v0) # pairs, rest)"
  by simp

lemma iterencode_start:
  "\<exists>c cs. iterencode l v = c # cs \<and> \<not> is_ws c \<and> c \<noteq> CHR '']''"
proof (cases v)
  case JNull
  then show ?thesis by (simp add: is_ws_def)
next
  case (JBool b)
  then show ?thesis by (cases b) (simp_all add: is_ws_def)
next
  case (JInt i)
  obtain c cs where "str_int i = c # cs" and "c = CHR ''-'' \<or> is_digit c"
    using str_int_Cons by blast
  with JInt number_start [of c] show ?thesis by simp
next
  case (JStr t)
  then show ?thesis by (simp add: encode_basestring_ascii_def is_ws_def)
next
  case (JArr xs)
  then show ?thesis by (cases xs) (simp_all add: is_ws_def)
next
  case (JObj kvs)
  show ?thesis
  proof (cases kvs)
    case Nil
    with JObj show ?thesis by (simp add: is_ws_def)
  next
    case (Cons kv kvs')
    with JObj show ?thesis by (cases kv) (simp add: is_ws_def)
  qed
qed

lemma dict_set_new: "k \<notin> fst ` set d \<Longrightarrow> dict_set k v d = d @ [(k, v)]"
  by (induction d) auto

lemma dict_of_distinct_aux:
  "distinct (map fst (d @ pairs)) \<Longrightarrow>
   foldl (\<lambda>d kv. dict_set (fst kv) (snd kv) d) d pairs = d @ pairs"
proof (induction pairs arbitrary: d)
  case Nil
  show ?case by simp
next
  case (Cons kv pairs)
  from Cons.prems have new: "fst kv \<notin> fst ` set d" by auto
  from Cons.prems have "distinct (map fst ((d @ [kv]) @ pairs))" by simp
  from Cons.IH [OF this] new show ?case by (simp add: dict_set_new)
qed

lemma dict_of_distinct: "distinct (map fst pairs) \<Longrightarrow> dict_of pairs = pairs"
  using dict_of_distinct_aux [of "[]" pairs] by (simp add: dict_of_def)

lemma member_text:
  assumes "parse_value n (iterencode l v @ tail) = Some (v, tail)"
  shows "scanstring (escape k @ CHR 0x22 # '': '' @ iterencode l v @ tail)
           = Some (k, '': '' @ iterencode l v @ tail)
         \<and> skip_ws ('': '' @ iterencode l v @ tail) = CHR '':'' # '' '' @ iterencode l v @ tail
         \<and> parse_value n (skip_ws ('' '' @ iterencode l v @ tail)) = Some (v, tail)"
proof -
  obtain c cs where eq: "iterencode l v = c # cs" and c: "\<not> is_ws c"
    using iterencode_start by blast
  have "skip_ws ('' '' @ iterencode l v @ tail) = iterencode l v @ tail"
    using c by (simp add: eq skip_ws_space skip_ws_start)
  with assms show ?thesis
    by (simp add: scanstring_escape skip_ws_start not_ws)
qed

lemma roundtrip:
  "py_value v \<Longrightarrow> number_ends rest \<Longrightarrow> length (iterencode l v) \<le> n \<Longrightarrow>
     parse_value n (iterencode l v @ rest) = Some (v, rest)"
  "py_values xs \<Longrightarrow> length (iterencode_list l xs) \<le> n \<Longrightarrow>
     parse_value n s0 = Some (v0, iterencode_list l xs @ newline_indent l' @ CHR '']'' # rest) \<Longrightarrow>
     parse_elements (Suc n) s0 = Some (v0 # xs, rest)"
  "py_items kvs \<Longrightarrow> length (iterencode_dict l kvs) \<le> n \<Longrightarrow>
     scanstring s0 = Some (k0, s1) \<Longrightarrow> skip_ws s1 = CHR '':'' # cs \<Longrightarrow>
     parse_value n (skip_ws cs)
       = Some (v0, iterencode_dict l kvs @ newline_indent l' @ CHR ''}'' # rest) \<Longrightarrow>
     parse_members (Suc n) s0 = Some ((k0, v0) # kvs, rest)"
proof (induction l v and l xs and l kvs
    arbitrary: n rest and n s0 v0 l' rest and n s0 s1 cs k0 v0 l' rest
    rule: iterencode_iterencode_list_iterencode_dict.induct)
  case (1 level)
  then obtain m where "n = Suc m" by (cases n) simp_all
  then show ?case using parse_value_null by simp
next
  case (2 level b)
  then obtain m where n: "n = Suc m" by (cases n) (simp_all split: if_splits)
  show ?case
  proof (cases b)
    case True
    then show ?thesis using parse_value_true [of m rest] n by simp
  next
    case False
    then show ?thesis using parse_value_false [of m rest] n by simp
  qed
next
  case (3 level i)
  obtain c cs where "str_int i = c # cs" using str_int_Cons by blast
  with "3.prems" obtain m where n: "n = Suc m" by (cases n) simp_all
  from "3.prems" show ?case using parse_value_int [of rest m i] n by simp
next
  case (4 level s)
  then obtain m where n: "n = Suc m" by (cases n) (simp_all add: encode_basestring_ascii_def)
  show ?case using parse_value_string [of m s rest] n by simp
next
  case (5 level)
  then obtain m where n: "n = Suc m" by (cases n) simp_all
  show ?case using parse_value_empty_array [of m rest] n by simp
next
  case (6 level x xs)
  let ?tail = "iterencode_list (Suc level) xs @ newline_indent level @ CHR '']'' # rest"
  let ?cs = "newline_indent (Suc level) @ iterencode (Suc level) x @ ?tail"
  from "6.prems" have px: "py_value x" and pxs: "py_values xs" by simp_all
  from "6.prems" obtain m where n: "n = Suc (Suc m)"
    and lx: "length (iterencode (Suc level) x) \<le> m"
    and lxs: "length (iterencode_list (Suc level) xs) \<le> m"
    by (cases n; cases "n - 1") (simp_all add: length_newline_indent)
  have first: "parse_value m (iterencode (Suc level) x @ ?tail) = Some (x, ?tail)"
    by (rule "6.IH"(1) [OF px number_ends_list lx])
  have elems: "parse_elements (Suc m) (iterencode (Suc level) x @ ?tail) = Some (x # xs, rest)"
    by (rule "6.IH"(2) [OF pxs lxs first])
  obtain c cs where eq: "iterencode (Suc level) x = c # cs" and c: "\<not> is_ws c" "c \<noteq> CHR '']''"
    using iterencode_start by blast
  have skip: "skip_ws ?cs = c # (cs @ ?tail)"
    using c by (simp add: skip_ws_newline_indent eq skip_ws_start)
  have "parse_value (Suc (Suc m)) (CHR ''['' # ?cs) = Some (JArr (x # xs), rest)"
    using elems by (intro parse_value_array [OF skip c(2)]) (simp add: eq)
  then show ?case by (simp add: n)
next
  case (7 level)
  then obtain m where n: "n = Suc m" by (cases n) simp_all
  show ?case using parse_value_empty_object [of m rest] n by simp
next
  case (8 level k v kvs)
  let ?tail = "iterencode_dict (Suc level) kvs @ newline_indent level @ CHR ''}'' # rest"
  let ?member = "escape k @ CHR 0x22 # '': '' @ iterencode (Suc level) v @ ?tail"
  let ?cs = "newline_indent (Suc level) @ CHR 0x22 # ?member"
  from "8.prems" have pv: "py_value v" and pkvs: "py_items kvs"
    and dist: "distinct (map fst ((k, v) # kvs))" by simp_all
  from "8.prems" obtain m where n: "n = Suc (Suc m)"
    and lv: "length (iterencode (Suc level) v) \<le> m"
    and lkvs: "length (iterencode_dict (Suc level) kvs) \<le> m"
    by (cases n; cases "n - 1") (simp_all add: length_newline_indent encode_basestring_ascii_def)
  have val: "parse_value m (iterencode (Suc level) v @ ?tail) = Some (v, ?tail)"
    by (rule "8.IH"(1) [OF pv number_ends_dict lv])
  note mt = member_text [OF val, of k]
  have members: "parse_members (Suc m) ?member = Some ((k, v) # kvs, rest)"
    by (rule "8.IH"(2) [OF pkvs lkvs mt [THEN conjunct1] mt [THEN conjunct2, THEN conjunct1]
          mt [THEN conjunct2, THEN conjunct2]])
  have skip: "skip_ws ?cs = CHR 0x22 # ?member"
    by (simp add: skip_ws_newline_indent skip_ws_start not_ws)
  have "parse_value (Suc (Suc m)) (CHR ''{'' # ?cs) = Some (JObj (dict_of ((k, v) # kvs)), rest)"
    by (rule parse_value_object [OF skip members])
  then show ?case using dict_of_distinct [OF dist]
    by (simp add: n encode_basestring_ascii_def)
next
  case (9 level)
  have "skip_ws (newline_indent l' @ CHR '']'' # rest) = CHR '']'' # rest"
    by (simp add: skip_ws_newline_indent skip_ws_start not_ws)
  with "9.prems" show ?case by (intro parse_elements_last [of n s0 v0]) simp_all
next
  case (10 level x xs)
  let ?tail = "iterencode_list level xs @ newline_indent l' @ CHR '']'' # rest"
  from "10.prems" have px: "py_value x" and pxs: "py_values xs" by simp_all
  from "10.prems" obtain m where n: "n = Suc m"
    and lx: "length (iterencode level x) \<le> m"
    and lxs: "length (iterencode_list level xs) \<le> m"
    by (cases n) (simp_all add: length_newline_indent)
  have first: "parse_value m (iterencode level x @ ?tail) = Some (x, ?tail)"
    by (rule "10.IH"(1) [OF px number_ends_list lx])
  have elems: "parse_elements (Suc m) (iterencode level x @ ?tail) = Some (x # xs, rest)"
    by (rule "10.IH"(2) [OF pxs lxs first])
  obtain c cs where eq: "iterencode level x = c # cs" and c: "\<not> is_ws c"
    using iterencode_start by blast
  have skip: "skip_ws (newline_indent level @ iterencode level x @ ?tail) = iterencode level x @ ?tail"
    using c by (simp add: skip_ws_newline_indent eq skip_ws_start)
  have s1: "parse_value n s0
      = Some (v0, CHR '','' # newline_indent level @ iterencode level x @ ?tail)"
    using "10.prems"(3) by simp
  have comma: "skip_ws (CHR '','' # newline_indent level @ iterencode level x @ ?tail)
      = CHR '','' # newline_indent level @ iterencode level x @ ?tail"
    by (simp add: skip_ws_start not_ws)
  show ?case
    by (rule parse_elements_more [OF s1 comma]) (simp only: skip n elems)
next
  case (11 level)
  have "skip_ws (newline_indent l' @ CHR ''}'' # rest) = CHR ''}'' # rest"
    by (simp add: skip_ws_newline_indent skip_ws_start not_ws)
  with "11.prems" show ?case by (intro parse_members_last [of s0 k0 s1 cs n v0]) simp_all
next
  case (12 level k v kvs)
  let ?tail = "iterencode_dict level kvs @ newline_indent l' @ CHR ''}'' # rest"
  let ?member = "escape k @ CHR 0x22 # '': '' @ iterencode level v @ ?tail"
  from "12.prems" have pv: "py_value v" and pkvs: "py_items kvs" by simp_all
  from "12.prems" obtain m where n: "n = Suc m"
    and lv: "length (iterencode level v) \<le> m"
    and lkvs: "length (iterencode_dict level kvs) \<le> m"
    by (cases n) (simp_all add: length_newline_indent encode_basestring_ascii_def)
  have val: "parse_value m (iterencode level v @ ?tail) = Some (v, ?tail)"
    by (rule "12.IH"(1) [OF pv number_ends_dict lv])
  note mt = member_text [OF val, of k]
  have members: "parse_members (Suc m) ?member = Some ((k, v) # kvs, rest)"
    by (rule "12.IH"(2) [OF pkvs lkvs mt [THEN conjunct1] mt [THEN conjunct2, THEN conjunct1]
          mt [THEN conjunct2, THEN conjunct2]])
  have s2: "parse_value n (skip_ws cs)
      = Some (v0, CHR '','' # newline_indent level @ CHR 0x22 # ?member)"
    using "12.prems"(5) by (simp add: encode_basestring_ascii_def)
  have comma: "skip_ws (CHR '','' # newline_indent level @ CHR 0x22 # ?member)
      = CHR '','' # newline_indent level @ CHR 0x22 # ?member"
    by (simp add: skip_ws_start not_ws)
  have quote: "skip_ws (newline_indent level @ CHR 0x22 # ?member) = CHR 0x22 # ?member"
    by (simp add: skip_ws_newline_indent skip_ws_start not_ws)
  show ?case
    by (rule parse_members_more [OF "12.prems"(3) "12.prems"(4) s2 comma quote])
       (simp only: n members)
qed

theorem loads_dumps: "py_value v \<Longrightarrow> json_loads (json_dumps v) = Some v"
proof -
  assume v: "py_value v"
  obtain c cs where eq: "iterencode 0 v = c # cs" and c: "\<not> is_ws c"
    using iterencode_start by blast
  have "parse_value (length (iterencode 0 v)) (iterencode 0 v @ []) = Some (v, [])"
    by (rule roundtrip(1) [OF v number_ends_Nil]) simp
  then show ?thesis using c
    by (simp add: json_loads_def json_dumps_def eq skip_ws_start) (simp add: skip_ws_def)
qed

lemma py_values_strs: "py_values (map JStr ss)"
  by (induction ss) simp_all

lemma py_value_item_json: "py_value (item_json item)"
  by (simp add: item_json_def attributes_json_def py_values_strs)

lemma py_values_items: "py_values (map item_json w)"
  by (induction w) (simp_all add: py_value_item_json)

lemma loads_export: "json_loads (export w) = Some (JArr (map item_json w))"
  unfolding export_def by (rule loads_dumps) (simp add: py_values_items)

lemma get_strs_list_strs: "get_strs_list (map JStr ss) = Some ss"
  by (induction ss) simp_all

lemma read_item_json: "read_item (item_json item) = Some item"
  by (cases item) (simp add: item_json_def attributes_json_def field_def get_strs_list_strs)

lemma read_items_json: "read_items (map item_json w) = Some w"
  by (induction w) (simp_all add: read_item_json)

lemma reparse_export: "reparse (export w) = Some w"
  by (simp add: reparse_def loads_export read_items_json)

section \<open>The claims\<close>

text \<open>
  Claim C1. After any number \<open>N\<close> of calls of \<open>add_to_wardrobe\<close> on a session that
  starts with an empty wardrobe, the ids returned are \<open>1, 2, ..., N\<close> in the order of the
  calls, the wardrobe holds \<open>N\<close> entries, and the entry at each place holds every field of
  the item added by that call, the features of its set as a list, and the id of that
  call. A single call appends one such entry, whose id is the length of the wardrobe
  before the call plus one, and returns that id.
\<close>

theorem add_ids_sequential:
  "fst (add_all cs init) = [1 .. int (length cs)]
   \<and> map id_key (wardrobe (snd (add_all cs init))) = [1 .. int (length cs)]
   \<and> length (wardrobe (snd (add_all cs init))) = length cs
   \<and> wardrobe (snd (add_all cs init)) =
       map2 (\<lambda>c n.
            \<lparr>category = category c, description = description c, color = color c,
              gender = gender c, fabric = fabric c, pattern = pattern c, fit = fit c,
              sleeve_length = sleeve_length c, neck_type = neck_type c,
              occasion = occasion c, season = season c,
              features = list_of_dlist (features c), id_key = n\<rparr>)
         cs [1 .. int (length cs)]
   \<and> add_to_wardrobe c s =
       (int (length (wardrobe s)) + 1,
        s\<lparr>wardrobe := wardrobe s @
           [\<lparr>category = category c, description = description c, color = color c,
              gender = gender c, fabric = fabric c, pattern = pattern c, fit = fit c,
              sleeve_length = sleeve_length c, neck_type = neck_type c,
              occasion = occasion c, season = season c,
              features = list_of_dlist (features c), id_key = int (length (wardrobe s)) + 1\<rparr>]\<rparr>)"
proof -
  have len: "length cs = length [1 .. int (length cs)]" by simp
  have dump: "model_dump = (\<lambda>c n.
            \<lparr>category = category c, description = description c, color = color c,
              gender = gender c, fabric = fabric c, pattern = pattern c, fit = fit c,
              sleeve_length = sleeve_length c, neck_type = neck_type c,
              occasion = occasion c, season = season c,
              features = list_of_dlist (features c), id_key = n\<rparr>)"
    by (intro ext) (simp add: model_dump_def)
  have all: "wardrobe (snd (add_all cs init)) = map2 model_dump cs [1 .. int (length cs)]"
    by (simp add: add_all_eq init_def)
  have one: "add_to_wardrobe c s =
       (int (length (wardrobe s)) + 1,
        s\<lparr>wardrobe := wardrobe s @ [model_dump c (int (length (wardrobe s)) + 1)]\<rparr>)"
    by (rule add_to_wardrobe_eq)
  have ids: "fst (add_all cs init) = [1 .. int (length cs)]"
    "map id_key (wardrobe (snd (add_all cs init))) = [1 .. int (length cs)]"
    "length (wardrobe (snd (add_all cs init))) = length cs"
    using map_id_key_dump [OF len] by (simp_all add: add_all_eq init_def)
  from ids all one show ?thesis by (simp only: dump simp_thms)
qed

text \<open>
  Claim C3. In a wardrobe whose ids are \<open>1, ..., n\<close> in order (every wardrobe the session
  reaches), \<open>get_item_by_id\<close> called with the integer \<open>k\<close> returns the \<open>k\<close>-th entry when
  \<open>1 \<le> k \<le> n\<close> and \<open>None\<close> otherwise; called with the text \<open>str(k)\<close> it returns the same;
  the entry returned carries the id \<open>k\<close>; and a text is not found exactly when it is the
  decimal form of no assigned id.
\<close>

theorem get_item_by_id_int_or_text:
  assumes "sequential_ids (wardrobe s)"
  shows "get_item_by_id (Id_int k) s =
           (if 1 \<le> k \<and> k \<le> int (length (wardrobe s))
            then Some (wardrobe s ! nat (k - 1)) else None, s)
         \<and> get_item_by_id (Id_str (str_int k)) s = get_item_by_id (Id_int k) s
         \<and> (if 1 \<le> k \<and> k \<le> int (length (wardrobe s))
            then id_key (wardrobe s ! nat (k - 1)) = k else True)
         \<and> (get_item_by_id (Id_str t) s = (None, s))
             = (t \<notin> str_int ` {1 .. int (length (wardrobe s))})"
  using assms nth_sequential [of "wardrobe s" k] ids_of_sequential [of "wardrobe s"]
  by (simp add: get_item_by_id_def scan_sequential scan_None)

theorem get_item_by_id_int_or_text_witness:
  "sequential_ids (wardrobe two_items)
   \<and> get_item_by_id (Id_int 2) two_items = (Some (model_dump jeans 2), two_items)
   \<and> get_item_by_id (Id_str ''2'') two_items = (Some (model_dump jeans 2), two_items)
   \<and> get_item_by_id (Id_int 3) two_items = (None, two_items)
   \<and> get_item_by_id (Id_str ''3'') two_items = (None, two_items)"
proof -
  have s2: "str_int 2 = ''2''" and s3: "str_int 3 = ''3''"
    by (simp_all add: str_int_def digits.simps digit_char_def)
  have len: "length (wardrobe two_items) = 2" and snd: "wardrobe two_items ! Suc 0 = model_dump jeans 2"
    by (simp_all add: two_items_eq)
  from get_item_by_id_int_or_text [OF sequential_two_items, of 2 "''x''"]
       get_item_by_id_int_or_text [OF sequential_two_items, of 3 "''x''"]
  show ?thesis
    by (simp add: sequential_two_items s2 s3 len snd)
qed

text \<open>
  Claim C9. \<open>get_item_by_id\<close> compares \<open>str(item_id)\<close> with the decimal form of the stored
  id, character by character: an entry is returned only when the two strings are equal,
  and nothing is found exactly when no stored id prints as the given string. The texts
  \<open>"01"\<close>, \<open>"1 "\<close> and \<open>"1.0"\<close> are the decimal form of no integer and are never found, while
  \<open>"1"\<close> finds the first entry of a wardrobe with sequential ids.
\<close>

theorem get_item_by_id_exact_text:
  "(fst (get_item_by_id item_id s) = Some item \<longrightarrow>
      str item_id = str_int (id_key item) \<and> item \<in> set (wardrobe s))
   \<and> (fst (get_item_by_id item_id s) = None)
       = (str item_id \<notin> (\<lambda>item. str_int (id_key item)) ` set (wardrobe s))
   \<and> get_item_by_id (Id_str ''01'') s = (None, s)
   \<and> get_item_by_id (Id_str ''1 '') s = (None, s)
   \<and> get_item_by_id (Id_str ''1.0'') s = (None, s)
   \<and> (sequential_ids (wardrobe s) \<and> wardrobe s \<noteq> [] \<longrightarrow>
        get_item_by_id (Id_str ''1'') s = (Some (wardrobe s ! 0), s)
        \<and> id_key (wardrobe s ! 0) = 1)"
proof -
  have found: "fst (get_item_by_id item_id s) = Some item \<longrightarrow>
      str item_id = str_int (id_key item) \<and> item \<in> set (wardrobe s)"
    using scan_Some [of "wardrobe s" "str item_id" item] by (simp add: get_item_by_id_def)
  have none: "(fst (get_item_by_id item_id s) = None)
       = (str item_id \<notin> (\<lambda>item. str_int (id_key item)) ` set (wardrobe s))"
    by (simp add: get_item_by_id_def scan_None)
  have absent: "\<And>t. (\<And>k. str_int k \<noteq> t) \<Longrightarrow> get_item_by_id (Id_str t) s = (None, s)"
  proof -
    fix t assume "\<And>k. str_int k \<noteq> t"
    then have "t \<notin> (\<lambda>item. str_int (id_key item)) ` set (wardrobe s)" by blast
    then show "get_item_by_id (Id_str t) s = (None, s)"
      by (simp add: get_item_by_id_def scan_None)
  qed
  have one: "str_int 1 = ''1''" by (simp add: str_int_def digits.simps digit_char_def)
  have first: "sequential_ids (wardrobe s) \<and> wardrobe s \<noteq> [] \<longrightarrow>
        get_item_by_id (Id_str ''1'') s = (Some (wardrobe s ! 0), s)
        \<and> id_key (wardrobe s ! 0) = 1"
  proof
    assume a: "sequential_ids (wardrobe s) \<and> wardrobe s \<noteq> []"
    then have len: "1 \<le> int (length (wardrobe s))" by (cases "wardrobe s") simp_all
    from a len scan_sequential [of "wardrobe s" 1] nth_sequential [of "wardrobe s" 1]
    show "get_item_by_id (Id_str ''1'') s = (Some (wardrobe s ! 0), s)
        \<and> id_key (wardrobe s ! 0) = 1"
      by (simp add: get_item_by_id_def one)
  qed
  from found none first absent [OF str_int_not_01] absent [OF str_int_not_1_space]
    absent [OF str_int_not_1_dot_0]
  show ?thesis by blast
qed

theorem get_item_by_id_exact_text_witness:
  "fst (get_item_by_id (Id_str ''2'') two_items) = Some (model_dump jeans 2)
   \<and> str (Id_str ''2'') = str_int (id_key (model_dump jeans 2))
   \<and> model_dump jeans 2 \<in> set (wardrobe two_items)
   \<and> sequential_ids (wardrobe two_items) \<and> wardrobe two_items \<noteq> []
   \<and> get_item_by_id (Id_str ''1'') two_items = (Some (model_dump tshirt 1), two_items)
   \<and> get_item_by_id (Id_str ''01'') two_items = (None, two_items)
   \<and> get_item_by_id (Id_str ''1 '') two_items = (None, two_items)
   \<and> get_item_by_id (Id_str ''1.0'') two_items = (None, two_items)"
proof -
  have s1: "str_int 1 = ''1''" and s2: "str_int 2 = ''2''"
    by (simp_all add: str_int_def digits.simps digit_char_def)
  have found: "fst (get_item_by_id (Id_str ''2'') two_items) = Some (model_dump jeans 2)"
    by (simp add: get_item_by_id_def two_items_eq model_dump_def s1 s2)
  have ne: "wardrobe two_items \<noteq> []" and first: "wardrobe two_items ! 0 = model_dump tshirt 1"
    by (simp_all add: two_items_eq)
  from get_item_by_id_exact_text [of "Id_str ''2''" two_items "model_dump jeans 2"]
    found ne first sequential_two_items
  show ?thesis by simp
qed

text \<open>
  Claim C4. When the Model Gateway raises on the call of \<open>analyze_clothing_image\<close>, the
  function returns \<open>None\<close> and shows the message with \<open>st.error\<close>; nothing is raised to
  the caller. The wardrobe is unchanged by the call, and the handler of the "Analyze"
  button, which adds only an item that was returned, leaves the wardrobe and its size as
  they were.
\<close>

theorem analyze_failure_caught:
  assumes "structured_llm (analyze_prompt (encode_image image_bytes)) = Raised e"
  shows "analyze_clothing_image structured_llm image_bytes s =
           (None, s\<lparr>invoked := invoked s @ [analyze_prompt (encode_image image_bytes)],
                     page := page s @ [Error (''Error analyzing image: '' @ e)]\<rparr>)
         \<and> wardrobe (snd (analyze_clothing_image structured_llm image_bytes s)) = wardrobe s
         \<and> wardrobe (main_analyze structured_llm image_bytes s) = wardrobe s
         \<and> length (wardrobe (main_analyze structured_llm image_bytes s)) = length (wardrobe s)"
  using assms
  by (simp add: analyze_clothing_image_def main_analyze_def Let_def st_def)

theorem analyze_failure_caught_witness:
  "(\<lambda>prompt. Raised ''429 quota exceeded'') (analyze_prompt (encode_image [0xFF, 0xD8, 0xFF])) 
      = (Raised ''429 quota exceeded'' :: clothing_item outcome)
   \<and> fst (analyze_clothing_image (\<lambda>prompt. Raised ''429 quota exceeded'') [0xFF, 0xD8, 0xFF] two_items) = None
   \<and> page (snd (analyze_clothing_image (\<lambda>prompt. Raised ''429 quota exceeded'') [0xFF, 0xD8, 0xFF] two_items))
       = [Error ''Error analyzing image: 429 quota exceeded'']
   \<and> length (wardrobe (main_analyze (\<lambda>prompt. Raised ''429 quota exceeded'') [0xFF, 0xD8, 0xFF] two_items)) = 2"
  using analyze_failure_caught [of "\<lambda>prompt. Raised ''429 quota exceeded''" "[0xFF, 0xD8, 0xFF]"
      "''429 quota exceeded''" two_items]
  by (simp add: two_items_eq)

text \<open>
  Claim C8. When the wardrobe is not empty and the Model Gateway returns a parsed
  recommendation, \<open>get_outfit_recommendations\<close> returns that very recommendation: its
  \<open>recommended_items\<close> are neither filtered nor checked against the ids of the wardrobe.
  The session changes only by the prompt sent.
\<close>

theorem recommend_returns_parsed_unchanged:
  assumes "wardrobe s \<noteq> []"
    and "recommendation_llm (recommend_prompt (wardrobe s) user_preferences num_recommendations)
           = Returned response"
  shows "get_outfit_recommendations recommendation_llm user_preferences num_recommendations s =
           (Some response,
            s\<lparr>invoked := invoked s @
                 [recommend_prompt (wardrobe s) user_preferences num_recommendations]\<rparr>)"
  using assms by (simp add: get_outfit_recommendations_def Let_def)

theorem recommend_returns_parsed_unchanged_witness:
  "wardrobe two_items \<noteq> []
   \<and> fst (get_item_by_id (Id_str ''99'') two_items) = None
   \<and> fst (get_outfit_recommendations (\<lambda>prompt. Returned stale_outfit) ''Casual, Summer'' 1 two_items)
       = Some stale_outfit
   \<and> recommended_items stale_outfit = [''1'', ''99'']"
proof -
  have ne: "wardrobe two_items \<noteq> []" by (simp add: two_items_eq)
  have s1: "str_int 1 = ''1''" and s2: "str_int 2 = ''2''"
    by (simp_all add: str_int_def digits.simps digit_char_def)
  have none: "fst (get_item_by_id (Id_str ''99'') two_items) = None"
    by (simp add: get_item_by_id_def two_items_eq model_dump_def s1 s2)
  from recommend_returns_parsed_unchanged [of two_items "\<lambda>prompt. Returned stale_outfit"
      "''Casual, Summer''" 1 stale_outfit, OF ne] none ne
  show ?thesis by (simp add: stale_outfit_def)
qed

text \<open>
  Claim C2, as the code has it. With an empty wardrobe \<open>get_outfit_recommendations\<close>
  returns \<open>None\<close> at once and leaves the session as it was: no prompt is sent to the Model
  Gateway and no message is shown. A failure of the gateway on a non-empty wardrobe
  returns \<open>None\<close> too, after the prompt was sent and the message was shown with
  \<open>st.error\<close>.
\<close>

theorem recommend_empty_returns_none:
  "(wardrobe s = [] \<longrightarrow>
      get_outfit_recommendations recommendation_llm user_preferences num_recommendations s
        = (None, s))
   \<and> (wardrobe s \<noteq> [] \<and>
        recommendation_llm (recommend_prompt (wardrobe s) user_preferences num_recommendations)
          = Raised e \<longrightarrow>
      get_outfit_recommendations recommendation_llm user_preferences num_recommendations s
        = (None,
           s\<lparr>invoked := invoked s @
                [recommend_prompt (wardrobe s) user_preferences num_recommendations],
              page := page s @ [Error (''Error getting recommendations: '' @ e)]\<rparr>))"
  by (simp add: get_outfit_recommendations_def Let_def st_def)

theorem recommend_empty_returns_none_witness:
  "wardrobe init = []
   \<and> get_outfit_recommendations (\<lambda>prompt. Raised ''timeout'') ''Casual'' 3 init = (None, init)
   \<and> wardrobe two_items \<noteq> []
   \<and> fst (get_outfit_recommendations (\<lambda>prompt. Raised ''timeout'') ''Casual'' 3 two_items) = None
   \<and> page (snd (get_outfit_recommendations (\<lambda>prompt. Raised ''timeout'') ''Casual'' 3 two_items))
       = [Error ''Error getting recommendations: timeout'']"
  using recommend_empty_returns_none [of init "\<lambda>prompt. Raised ''timeout''" "''Casual''" 3 "''timeout''"]
    recommend_empty_returns_none [of two_items "\<lambda>prompt. Raised ''timeout''" "''Casual''" 3 "''timeout''"]
  by (simp add: two_items_eq init_def)

text \<open>
  Claim C2 as stated asks for an indicator that differs from the result of an error.
  The value returned for an empty wardrobe and the value returned after a failure of the
  gateway are both \<open>None\<close>.
\<close>

theorem recommend_empty_same_as_error:
  "wardrobe init = []
   \<and> fst (get_outfit_recommendations (\<lambda>prompt. Raised ''timeout'') ''Casual'' 3 init) = None
   \<and> wardrobe two_items \<noteq> []
   \<and> fst (get_outfit_recommendations (\<lambda>prompt. Raised ''timeout'') ''Casual'' 3 two_items) = None"
  by (simp add: get_outfit_recommendations_def Let_def two_items_eq init_def)

text \<open>
  Claim C6. \<open>display_outfit_recommendation\<close> puts on the page the header, then for each
  recommended id, in the order of the list, the expander of the first entry of the
  wardrobe whose id prints as that text, and nothing when the wardrobe has no such
  entry, then the reasoning, then the styling tips when there are any. So the result is
  the same as for the recommendation without the ids absent from the wardrobe. The
  lookup \<open>get_item_by_id\<close> finds exactly that entry: it returns \<open>None\<close> if and only if no
  stored id prints as the text, and an entry it returns is in the wardrobe and carries
  that id. The function is total; wardrobe and gateway are untouched.
\<close>

theorem display_skips_unknown_ids:
  "display_outfit_recommendation recommendation s =
     s\<lparr>page := page s
         @ [Subheader (glyph_subheader @ '' Recommended Outfit''), Write ''**Outfit Items:**'']
         @ concat (map (\<lambda>i. case find (\<lambda>item. str_int (id_key item) = i) (wardrobe s) of
                               None \<Rightarrow> []
                             | Some item \<Rightarrow>
                                 [Expander (''Item '' @ i @ '': '' @ category item @ '' - ''
                                          @ join '', '' (color item))
                                  [Columns
                                    [[Write (''**Description:** '' @ description item),
                                      Write (''**Fabric:** '' @ fabric item),
                                      Write (''**Pattern:** '' @ pattern item),
                                      Write (''**Fit:** '' @ fit item)],
                                     [Write (''**Occasions:** '' @ join '', '' (occasion item)),
                                      Write (''**Seasons:** '' @ join '', '' (season item)),
                                      Write (''**Features:** '' @ join '', '' (features item))]]]])
                     (recommended_items recommendation))
         @ [Write ''**Why this outfit works:**'', Write (reasoning recommendation)]
         @ (if style_tips recommendation = [] then []
            else Write ''**Styling Tips:**''
                   # map (\<lambda>tip. Write (glyph_tip @ '' '' @ tip)) (style_tips recommendation))\<rparr>
   \<and> display_outfit_recommendation recommendation s =
       display_outfit_recommendation
         (recommendation\<lparr>recommended_items :=
            filter (\<lambda>i. i \<in> (\<lambda>item. str_int (id_key item)) ` set (wardrobe s))
              (recommended_items recommendation)\<rparr>) s
   \<and> fst (get_item_by_id (Id_str i) s) = find (\<lambda>item. str_int (id_key item) = i) (wardrobe s)
   \<and> (fst (get_item_by_id (Id_str i) s) = None)
       = (i \<notin> (\<lambda>item. str_int (id_key item)) ` set (wardrobe s))
   \<and> (case fst (get_item_by_id (Id_str i) s) of
         None \<Rightarrow> True
       | Some item \<Rightarrow> item \<in> set (wardrobe s) \<and> str_int (id_key item) = i)"
proof -
  have found: "(\<lambda>i. \<exists>item. scan (wardrobe s) i = Some item)
      = (\<lambda>i. i \<in> (\<lambda>item. str_int (id_key item)) ` set (wardrobe s))"
    using scan_None [of "wardrobe s"] by (intro ext) (metis not_None_eq)
  have page: "display_outfit_recommendation recommendation s =
       display_outfit_recommendation
         (recommendation\<lparr>recommended_items :=
            filter (\<lambda>i. \<exists>item. scan (wardrobe s) i = Some item)
              (recommended_items recommendation)\<rparr>) s"
    by (simp add: display_eq concat_found_filter)
  have entry: "case fst (get_item_by_id (Id_str i) s) of
         None \<Rightarrow> True
       | Some item \<Rightarrow> item \<in> set (wardrobe s) \<and> str_int (id_key item) = i"
    using scan_Some [of "wardrobe s" i]
    by (cases "scan (wardrobe s) i") (simp_all add: get_item_by_id_def)
  have closed: "display_outfit_recommendation recommendation s =
     s\<lparr>page := page s
         @ [Subheader (glyph_subheader @ '' Recommended Outfit''), Write ''**Outfit Items:**'']
         @ concat (map (\<lambda>i. case find (\<lambda>item. str_int (id_key item) = i) (wardrobe s) of
                               None \<Rightarrow> []
                             | Some item \<Rightarrow>
                                 [Expander (''Item '' @ i @ '': '' @ category item @ '' - ''
                                          @ join '', '' (color item))
                                  [Columns
                                    [[Write (''**Description:** '' @ description item),
                                      Write (''**Fabric:** '' @ fabric item),
                                      Write (''**Pattern:** '' @ pattern item),
                                      Write (''**Fit:** '' @ fit item)],
                                     [Write (''**Occasions:** '' @ join '', '' (occasion item)),
                                      Write (''**Seasons:** '' @ join '', '' (season item)),
                                      Write (''**Features:** '' @ join '', '' (features item))]]]])
                     (recommended_items recommendation))
         @ [Write ''**Why this outfit works:**'', Write (reasoning recommendation)]
         @ (if style_tips recommendation = [] then []
            else Write ''**Styling Tips:**''
                   # map (\<lambda>tip. Write (glyph_tip @ '' '' @ tip)) (style_tips recommendation))\<rparr>"
    by (simp add: display_eq scan_find item_expander_def cong: option.case_cong)
  from closed page entry show ?thesis
    by (simp only: found) (simp add: get_item_by_id_def scan_find [symmetric] scan_None)
qed

text \<open>An example: of the ids \<open>"1"\<close> and \<open>"99"\<close> only the first is in the wardrobe of two.\<close>

lemma display_example:
  "page (display_outfit_recommendation stale_outfit two_items) =
     [Subheader (glyph_subheader @ '' Recommended Outfit''),
      Write ''**Outfit Items:**'',
      item_expander ''1'' (model_dump tshirt 1),
      Write ''**Why this outfit works:**'',
      Write ''Blue goes with black.'',
      Write ''**Styling Tips:**'',
      Write (glyph_tip @ '' Roll the sleeves.'')]"
proof -
  have s1: "str_int 1 = ''1''" and s2: "str_int 2 = ''2''"
    by (simp_all add: str_int_def digits.simps digit_char_def)
  show ?thesis
    by (simp add: display_eq stale_outfit_def two_items_eq model_dump_def s1 s2)
qed

text \<open>
  Claim C7. A wardrobe with the ids \<open>1, ..., n\<close> in order has pairwise distinct ids in
  strictly increasing order. The empty wardrobe of a new session is such a wardrobe, and
  \<open>add_to_wardrobe\<close> keeps the property and keeps every entry it found, unchanged and
  in place (the old wardrobe is a prefix of the new one). Lookup, listing, export,
  recommendation and display return the wardrobe as it was.
\<close>

theorem wardrobe_invariant:
  assumes "sequential_ids (wardrobe s)"
  shows "distinct (map id_key (wardrobe s))
         \<and> sorted_wrt (<) (map id_key (wardrobe s))
         \<and> sequential_ids (wardrobe (snd (add_to_wardrobe c s)))
         \<and> prefix (wardrobe s) (wardrobe (snd (add_to_wardrobe c s)))
         \<and> wardrobe (snd (get_item_by_id item_id s)) = wardrobe s
         \<and> wardrobe (main_list s) = wardrobe s
         \<and> wardrobe (main_export s) = wardrobe s
         \<and> wardrobe (snd (get_outfit_recommendations llm prefs n s)) = wardrobe s
         \<and> wardrobe (display_outfit_recommendation recommendation s) = wardrobe s
         \<and> sequential_ids (wardrobe init)"
proof -
  have add: "sequential_ids (wardrobe (snd (add_to_wardrobe c s)))"
    using assms by (simp add: add_to_wardrobe_eq sequential_ids_snoc model_dump_def)
  have pre: "prefix (wardrobe s) (wardrobe (snd (add_to_wardrobe c s)))"
    by (simp add: add_to_wardrobe_eq)
  have get: "wardrobe (snd (get_item_by_id item_id s)) = wardrobe s"
    by (simp add: get_item_by_id_def)
  have ini: "sequential_ids (wardrobe init)"
    by (simp add: init_def sequential_ids_Nil)
  from assms add pre get ini show ?thesis
    by (simp add: sequential_ids_distinct sequential_ids_increasing wardrobe_main_list
        wardrobe_main_export wardrobe_recommend wardrobe_display)
qed

theorem wardrobe_invariant_witness:
  "sequential_ids (wardrobe two_items)
   \<and> map id_key (wardrobe two_items) = [1, 2]
   \<and> map id_key (wardrobe (snd (add_to_wardrobe tshirt two_items))) = [1, 2, 3]
   \<and> take 2 (wardrobe (snd (add_to_wardrobe tshirt two_items))) = wardrobe two_items
   \<and> sequential_ids (wardrobe (snd (add_to_wardrobe tshirt two_items)))
   \<and> prefix (wardrobe two_items) (wardrobe (snd (add_to_wardrobe tshirt two_items)))"
proof -
  note inv = wardrobe_invariant [OF sequential_two_items, of tshirt "Id_int 1" "\<lambda>prompt. Raised []" "[]" 3 stale_outfit]
  have seq: "sequential_ids (wardrobe (snd (add_to_wardrobe tshirt two_items)))"
    and pre: "prefix (wardrobe two_items) (wardrobe (snd (add_to_wardrobe tshirt two_items)))"
    using inv by blast+
  have ids: "map id_key (wardrobe two_items) = [1, 2]"
    "map id_key (wardrobe (snd (add_to_wardrobe tshirt two_items))) = [1, 2, 3]"
    "take 2 (wardrobe (snd (add_to_wardrobe tshirt two_items))) = wardrobe two_items"
    by (simp_all add: two_items_eq add_to_wardrobe_eq model_dump_def)
  from sequential_two_items seq pre ids show ?thesis by (intro conjI)
qed

text \<open>
  Claim C10. \<open>get_item_by_id\<close> returns the session unchanged;
  \<open>display_outfit_recommendation\<close>, \<open>get_outfit_recommendations\<close> (whatever it returns) and
  \<open>analyze_clothing_image\<close> return the same wardrobe, entry for entry. Only
  \<open>add_to_wardrobe\<close> changes it, by one entry appended.
\<close>

theorem reads_leave_wardrobe_unchanged:
  "snd (get_item_by_id item_id s) = s
   \<and> wardrobe (display_outfit_recommendation recommendation s) = wardrobe s
   \<and> invoked (display_outfit_recommendation recommendation s) = invoked s
   \<and> wardrobe (snd (get_outfit_recommendations llm prefs n s)) = wardrobe s
   \<and> wardrobe (snd (analyze_clothing_image structured_llm image_bytes s)) = wardrobe s
   \<and> wardrobe (snd (add_to_wardrobe c s)) = wardrobe s @ [model_dump c (int (length (wardrobe s)) + 1)]
   \<and> wardrobe (snd (add_to_wardrobe c s)) \<noteq> wardrobe s"
  by (simp add: get_item_by_id_def wardrobe_display wardrobe_recommend wardrobe_analyze
      add_to_wardrobe_eq display_eq)

text \<open>
  Claim C5. The text \<open>json.dumps(wardrobe, indent=2)\<close>, parsed again by \<open>json.loads\<close>, is
  the list of the same dicts in the same order, and reading it back gives every entry
  field for field, for every wardrobe and every text in it. For a wardrobe filled by
  \<open>add_to_wardrobe\<close> from the items \<open>cs\<close>, the entries read back are the dumps of the
  items with the ids \<open>1, 2, ...\<close>: each text field and the lists \<open>color\<close>, \<open>occasion\<close> and
  \<open>season\<close> are those of the item, element by element; \<open>features\<close> is a list without
  repetitions whose elements are those of the item's set.
\<close>

theorem export_reparse_roundtrip:
  "json_loads (export w) = Some (JArr (map item_json w))
   \<and> reparse (export w) = Some w
   \<and> reparse (export (wardrobe (snd (add_all cs init))))
       = Some (map2 model_dump cs [1 .. int (length cs)])
   \<and> category (model_dump c k) = category c
   \<and> description (model_dump c k) = description c
   \<and> color (model_dump c k) = color c
   \<and> gender (model_dump c k) = gender c
   \<and> fabric (model_dump c k) = fabric c
   \<and> pattern (model_dump c k) = pattern c
   \<and> fit (model_dump c k) = fit c
   \<and> sleeve_length (model_dump c k) = sleeve_length c
   \<and> neck_type (model_dump c k) = neck_type c
   \<and> occasion (model_dump c k) = occasion c
   \<and> season (model_dump c k) = season c
   \<and> set (features (model_dump c k)) = set (list_of_dlist (features c))
   \<and> distinct (features (model_dump c k))
   \<and> id_key (model_dump c k) = k"
proof -
  have "wardrobe (snd (add_all cs init)) = map2 model_dump cs [1 .. int (length cs)]"
    by (simp add: add_all_eq init_def)
  then show ?thesis
    by (simp add: loads_export reparse_export model_dump_def)
qed

text \<open>An example: the export of the wardrobe of two, read back.\<close>

lemma export_example:
  "reparse (export (wardrobe two_items)) = Some [model_dump tshirt 1, model_dump jeans 2]
   \<and> features (model_dump jeans 2) = [''Pockets'', ''Stretch'']"
  by (simp add: reparse_export two_items_eq) (simp add: model_dump_def jeans_def)

text \<open>
  Examples beyond ASCII: the dash U+2014 is written as one escape, the dress U+1F457 as
  the escapes of its surrogate pair, and both are read back as their UTF-8 bytes.
\<close>

lemma dumps_dash:
  "json_dumps (JStr [CHR 0xE2, CHR 0x80, CHR 0x94]) = [CHR 0x22, CHR 0x5C] @ ''u2014'' @ [CHR 0x22]"
  by (simp add: json_dumps_def encode_basestring_ascii_def escape_def utf8_head_def byte_def
      cont_def escape_code_point_def hex4_digits_def hex_char_def Let_def)

lemma loads_dash:
  "json_loads ([CHR 0x22, CHR 0x5C] @ ''u2014'' @ [CHR 0x22])
     = Some (JStr [CHR 0xE2, CHR 0x80, CHR 0x94])"
  by (simp add: json_loads_def skip_ws_def is_ws_def unicode_escape_def hex4_def hex_val_def
      utf8_encode_def prepend_def char_of_eq Let_def)

lemma dumps_dress:
  "json_dumps (JStr [CHR 0xF0, CHR 0x9F, CHR 0x91, CHR 0x97])
     = [CHR 0x22, CHR 0x5C] @ ''ud83d'' @ [CHR 0x5C] @ ''udc57'' @ [CHR 0x22]"
  by (simp add: json_dumps_def encode_basestring_ascii_def escape_def utf8_head_def byte_def
      cont_def escape_code_point_def hex4_digits_def hex_char_def Let_def)

lemma loads_dress:
  "json_loads ([CHR 0x22, CHR 0x5C] @ ''ud83d'' @ [CHR 0x5C] @ ''udc57'' @ [CHR 0x22])
     = Some (JStr [CHR 0xF0, CHR 0x9F, CHR 0x91, CHR 0x97])"
  by (simp add: json_loads_def skip_ws_def is_ws_def unicode_escape_def hex4_def hex_val_def
      utf8_encode_def prepend_def char_of_eq Let_def)

end
